theory Spec2Isabelle
  imports Main
begin

section \<open>QueueCTL: the job lifecycle, the in-memory queue and the two storage backends\<close>

text \<open>
  Conventions of the embedding.
  \<^item> An instant is the number of milliseconds since the epoch (what \<open>Date.getTime()\<close>
    returns). The source stores instants as the strings of \<open>toISOString()\<close>; these are in
    one-to-one correspondence with the millisecond counts, so
    \<open>new Date(s).toISOString()\<close> on such a string is the identity. The SQL statements
    compare the strings as text, which is the order of the instants for the years 0000 to
    9999 (a later year is written with a sign and six digits); the comparisons of the
    relational backend are modelled as comparisons of instants, for instants of those years.
  \<^item> The counters \<open>attempts\<close> and \<open>max_retries\<close> are integers, on which \<open>+= 1\<close> and
    the comparisons are exact (as they are on doubles below \<open>2 ^ 53\<close>). The backoff base is a
    finite IEEE-754 double, and the arithmetic of the backoff delay is double arithmetic:
    every operation gives the double nearest to the exact result, and a \<open>Date\<close> outside
    the range of 8.64e15 milliseconds either side of the epoch is invalid.
  \<^item> Every operation that reads the clock takes the reading as the parameter \<open>now\<close>;
    the clock is taken not to advance within one call.
  \<^item> A thrown \<open>Error\<close> is the \<open>Inl\<close> branch of a sum.
\<close>

subsection \<open>JavaScript numbers\<close>

text \<open>
  A finite double is \<open>m * 2 ^ e\<close> for integers \<open>m\<close> and \<open>e\<close>; \<open>Dyadic m e\<close> and
  \<open>Finite m e\<close> denote that value. A backoff base is a \<open>dyadic\<close>: \<open>NaN\<close> and the
  infinities are left out, as a job file cannot hold them (\<open>JSON.stringify\<close> writes
  \<open>null\<close>). The result of an operation is a \<open>number\<close>, which may be infinite.
\<close>

datatype dyadic = Dyadic int int

datatype number = Finite int int | PosInfinity | NegInfinity

text \<open>The number of binary digits of a positive integer.\<close>

function bit_length :: "int \<Rightarrow> nat" where
  "bit_length m = (if m \<le> 0 then 0 else Suc (bit_length (m div 2)))"
  by pat_completeness auto
termination
  by (relation "measure nat") auto

declare bit_length.simps [simp del]

text \<open>\<open>m / 2 ^ s\<close> rounded to the nearest integer, a tie going to the even one.\<close>

definition round_half_even :: "int \<Rightarrow> nat \<Rightarrow> int" where
  "round_half_even m s =
    (let q = m div 2 ^ s; r = m mod 2 ^ s; half = 2 ^ (s - 1)
     in if r < half then q
        else if half < r then q + 1
        else if even q then q else q + 1)"

text \<open>
  The double nearest to \<open>m * 2 ^ e\<close> (round to nearest, ties to even): the value keeps at
  most 53 significant bits, at an exponent no lower than that of the subnormals, and
  becomes infinite from \<open>2 ^ 1024\<close> on.
\<close>

definition round_double :: "int \<Rightarrow> int \<Rightarrow> number" where
  "round_double m e =
    (if m = 0 then Finite 0 0
     else
       let E = int (bit_length \<bar>m\<bar>) - 1 + e;
           qe = max (E - 52) (- 1074);
           m' = (if qe \<le> e then m else round_half_even m (nat (qe - e)));
           e' = (if qe \<le> e then e else qe)
       in if 1024 \<le> int (bit_length \<bar>m'\<bar>) - 1 + e'
          then (if 0 < m then PosInfinity else NegInfinity)
          else Finite m' e')"


text \<open>
  \<open>Math.pow(base, n)\<close> for a count \<open>n\<close>. ECMAScript asks only for an approximation of the
  power; the function is taken to round correctly, as \<open>*\<close> and \<open>+\<close> do. An implementation
  whose error stays below one unit in the last place returns the same result wherever the
  power is itself a double.
\<close>

definition Math_pow :: "dyadic \<Rightarrow> nat \<Rightarrow> number" where
  "Math_pow base n = (case base of Dyadic m e \<Rightarrow> round_double (m ^ n) (e * int n))"

text \<open>\<open>base < 1\<close>\<close>

definition less_than_one :: "dyadic \<Rightarrow> bool" where
  "less_than_one base =
    (case base of Dyadic m e \<Rightarrow> if 0 \<le> e then m * 2 ^ nat e < 1 else m < 2 ^ nat (- e))"

text \<open>\<open>seconds * 1000\<close>\<close>

definition times_1000 :: "number \<Rightarrow> number" where
  "times_1000 seconds =
    (case seconds of
       Finite m e \<Rightarrow> round_double (m * 1000) e
     | PosInfinity \<Rightarrow> PosInfinity
     | NegInfinity \<Rightarrow> NegInfinity)"

text \<open>\<open>t + x\<close> for the time value \<open>t\<close> of a valid date, an integer.\<close>

definition plus_number :: "int \<Rightarrow> number \<Rightarrow> number" where
  "plus_number t x =
    (case x of
       Finite m e \<Rightarrow>
         (if 0 \<le> e then round_double (t + m * 2 ^ nat e) 0
          else round_double (t * 2 ^ nat (- e) + m) e)
     | PosInfinity \<Rightarrow> PosInfinity
     | NegInfinity \<Rightarrow> NegInfinity)"

text \<open>
  \<open>new Date(value)\<close>: the time value is \<open>value\<close> with its fraction dropped, and the date
  is invalid (\<open>None\<close>) when \<open>value\<close> is not finite or beyond 8.64e15 in magnitude.
\<close>

definition new_Date :: "number \<Rightarrow> int option" where
  "new_Date v =
    (case v of
       Finite m e \<Rightarrow>
         if 0 \<le> e then
           (if \<bar>m\<bar> * 2 ^ nat e \<le> 8640000000000000 then Some (m * 2 ^ nat e) else None)
         else
           (if \<bar>m\<bar> \<le> 8640000000000000 * 2 ^ nat (- e)
            then Some (if 0 \<le> m then m div 2 ^ nat (- e) else - ((- m) div 2 ^ nat (- e)))
            else None)
     | PosInfinity \<Rightarrow> None
     | NegInfinity \<Rightarrow> None)"

subsection \<open>types/index.ts\<close>

type_synonym timestamp = int

datatype JobState = Pending | Processing | Completed | Failed | Dead

record Job =
  job_id :: string
  command :: string
  state :: JobState
  attempts :: int
  max_retries :: int
  created_at :: timestamp
  updated_at :: timestamp
  run_at :: "timestamp option"
  next_attempt_at :: "timestamp option"
  backoff_base :: "dyadic option"
  last_error :: "string option"

text \<open>\<open>class Job implements JobJSON\<close>: both have exactly the fields above.\<close>

type_synonym JobJSON = Job

record JobInit =
  init_id :: "string option"
  init_command :: string
  init_max_retries :: "int option"
  init_backoff_base :: "dyadic option"
  init_run_at :: "timestamp option"

subsection \<open>core/Job\<close>

datatype error =
    IdRequired
  | CommandRequired
  | AttemptsNegative
  | MaxRetriesNegative
  | BackoffBaseTooSmall
  | CannotMarkProcessing JobState
  | CannotMarkCompleted JobState
  | CannotMarkFailed JobState
  | CannotResetForRetry JobState
  | JobAlreadyExists string
  | JobNotFound string
  | EnqueueNotPending JobState
  | CompleteRequiresProcessing "JobState option"
  | FailRequiresProcessing "JobState option"
  | RequeueCannotApply JobState
  | SqliteConstraintPrimaryKey
  | InvalidTimeValue

text \<open>The value handed to \<open>markFailed(error: unknown)\<close>.\<close>

datatype thrown = ErrorObject string | StringValue string | OtherValue

definition DEFAULT_MAX_RETRIES :: int where
  "DEFAULT_MAX_RETRIES = 3"

definition DEFAULT_BACKOFF_BASE :: dyadic where
  "DEFAULT_BACKOFF_BASE = Dyadic 2 0"

text \<open>\<open>toISO\<close> returns \<open>undefined\<close> for a missing value and the canonical string otherwise.\<close>

definition toISO :: "timestamp option \<Rightarrow> timestamp option" where
  "toISO d = (case d of None \<Rightarrow> None | Some t \<Rightarrow> Some t)"

text \<open>
  \<open>addSeconds\<close> returns a \<open>Date\<close>, which may be invalid; \<open>toISOString\<close> throws a
  \<open>RangeError\<close> on an invalid date.
\<close>

definition addSeconds :: "timestamp \<Rightarrow> number \<Rightarrow> timestamp option" where
  "addSeconds date seconds = new_Date (plus_number date (times_1000 seconds))"

definition toISOString :: "timestamp option \<Rightarrow> error + timestamp" where
  "toISOString d = (case d of None \<Rightarrow> Inl InvalidTimeValue | Some t \<Rightarrow> Inr t)"

text \<open>\<open>String.prototype.trim\<close>, on the ASCII white space characters.\<close>

definition is_space :: "char \<Rightarrow> bool" where
  "is_space c = (c \<in> set [CHR 0x09, CHR 0x0A, CHR 0x0B, CHR 0x0C, CHR 0x0D, CHR 0x20])"

definition trim :: "string \<Rightarrow> string" where
  "trim s = rev (dropWhile is_space (rev (dropWhile is_space s)))"

definition nullish :: "'a option \<Rightarrow> 'a \<Rightarrow> 'a" where
  "nullish v d = (case v of None \<Rightarrow> d | Some x \<Rightarrow> x)"

text \<open>
  \<open>validate\<close>; its check that \<open>state\<close> is one of the five names is what the type
  \<open>JobState\<close> says.
\<close>

definition validate :: "Job \<Rightarrow> error + unit" where
  "validate j =
    (if job_id j = [] then Inl IdRequired
     else if command j = [] then Inl CommandRequired
     else if attempts j < 0 then Inl AttemptsNegative
     else if max_retries j < 0 then Inl MaxRetriesNegative
     else if less_than_one (nullish (backoff_base j) DEFAULT_BACKOFF_BASE)
     then Inl BackoffBaseTooSmall
     else Inr ())"

text \<open>\<open>uuid\<close> is the value \<open>randomUUID()\<close> would return, \<open>now\<close> the clock.\<close>

definition create :: "JobInit \<Rightarrow> string \<Rightarrow> timestamp \<Rightarrow> error + Job" where
  "create init uuid now =
    (let job = \<lparr> job_id = nullish (init_id init) uuid,
                 command = trim (init_command init),
                 state = Pending,
                 attempts = 0,
                 max_retries = nullish (init_max_retries init) DEFAULT_MAX_RETRIES,
                 created_at = now,
                 updated_at = now,
                 run_at = toISO (init_run_at init),
                 next_attempt_at = None,
                 backoff_base = Some (nullish (init_backoff_base init) DEFAULT_BACKOFF_BASE),
                 last_error = None \<rparr>
     in case validate job of Inl e \<Rightarrow> Inl e | Inr _ \<Rightarrow> Inr job)"

definition fromJSON :: "JobJSON \<Rightarrow> error + Job" where
  "fromJSON json =
    (let job = json \<lparr> created_at := created_at json,
                      updated_at := updated_at json,
                      run_at := toISO (run_at json),
                      next_attempt_at := toISO (next_attempt_at json),
                      backoff_base := Some (nullish (backoff_base json) DEFAULT_BACKOFF_BASE) \<rparr>
     in case validate job of Inl e \<Rightarrow> Inl e | Inr _ \<Rightarrow> Inr job)"

definition toJSON :: "Job \<Rightarrow> JobJSON" where
  "toJSON j =
    \<lparr> job_id = job_id j,
      command = command j,
      state = state j,
      attempts = attempts j,
      max_retries = max_retries j,
      created_at = created_at j,
      updated_at = updated_at j,
      run_at = run_at j,
      next_attempt_at = next_attempt_at j,
      backoff_base = backoff_base j,
      last_error = last_error j \<rparr>"

definition markProcessing :: "timestamp \<Rightarrow> Job \<Rightarrow> error + Job" where
  "markProcessing now j =
    (if state j \<noteq> Pending \<and> state j \<noteq> Failed then Inl (CannotMarkProcessing (state j))
     else Inr (j \<lparr> state := Processing, updated_at := now \<rparr>))"

definition markCompleted :: "timestamp \<Rightarrow> Job \<Rightarrow> error + Job" where
  "markCompleted now j =
    (if state j \<noteq> Processing then Inl (CannotMarkCompleted (state j))
     else Inr (j \<lparr> state := Completed, updated_at := now,
                   last_error := None, next_attempt_at := None \<rparr>))"

definition getBackoffDelaySeconds :: "Job \<Rightarrow> nat \<Rightarrow> number" where
  "getBackoffDelaySeconds j attemptNumber =
    (let base = nullish (backoff_base j) DEFAULT_BACKOFF_BASE
     in Math_pow base attemptNumber)"

definition errMsg_of :: "thrown \<Rightarrow> string" where
  "errMsg_of err =
    (case err of ErrorObject m \<Rightarrow> m | StringValue s \<Rightarrow> s | OtherValue \<Rightarrow> ''Unknown error'')"

text \<open>
  \<open>markFailed\<close> can throw after it has assigned: \<open>Inl (e, j')\<close> is the error thrown
  together with the job as the throw leaves it. The first throw leaves the job as it was;
  the \<open>RangeError\<close> of \<open>toISOString\<close> comes after the assignments to \<open>attempts\<close>,
  \<open>updated_at\<close>, \<open>last_error\<close> and \<open>state\<close>, and before the one to
  \<open>next_attempt_at\<close>.
\<close>

definition markFailed :: "thrown \<Rightarrow> timestamp \<Rightarrow> Job \<Rightarrow> (error \<times> Job) + Job" where
  "markFailed err now j =
    (if state j \<noteq> Processing then Inl (CannotMarkFailed (state j), j)
     else
       let j1 = j \<lparr> attempts := attempts j + 1, updated_at := now,
                    last_error := Some (errMsg_of err) \<rparr>
       in if attempts j1 > max_retries j1
          then Inr (j1 \<lparr> state := Dead, next_attempt_at := None \<rparr>)
          else
            let delaySec = getBackoffDelaySeconds j1 (nat (attempts j1));
                j2 = j1 \<lparr> state := Failed \<rparr>
            in (case toISOString (addSeconds now delaySec) of
                  Inl e \<Rightarrow> Inl (e, j2)
                | Inr t \<Rightarrow> Inr (j2 \<lparr> next_attempt_at := Some t \<rparr>)))"

definition isRetryable :: "Job \<Rightarrow> bool" where
  "isRetryable j = (attempts j < max_retries j \<and> state j \<noteq> Dead \<and> state j \<noteq> Completed)"

definition isDue :: "Job \<Rightarrow> timestamp \<Rightarrow> bool" where
  "isDue j at =
    (if state j = Pending then
       (case run_at j of None \<Rightarrow> True | Some r \<Rightarrow> r \<le> at)
     else if state j = Failed \<and> isRetryable j then
       (case next_attempt_at j of None \<Rightarrow> True | Some n \<Rightarrow> n \<le> at)
     else False)"

definition resetForRetry :: "bool \<Rightarrow> timestamp \<Rightarrow> Job \<Rightarrow> error + Job" where
  "resetForRetry keepAttempts now j =
    (if state j \<noteq> Dead \<and> state j \<noteq> Failed then Inl (CannotResetForRetry (state j))
     else
       let j1 = (if \<not> keepAttempts then j \<lparr> attempts := 0 \<rparr> else j)
       in Inr (j1 \<lparr> state := Pending, updated_at := now,
                    next_attempt_at := None, last_error := None \<rparr>))"

text \<open>
  The pair \<open>markProcessing(); markFailed(e)\<close> executed once: the error it throws, if
  any, and the job as the pair leaves it.
\<close>

definition fail_round :: "timestamp \<Rightarrow> thrown \<Rightarrow> timestamp \<Rightarrow> Job \<Rightarrow> error option \<times> Job" where
  "fail_round t1 e t2 j =
    (case markProcessing t1 j of
       Inl x \<Rightarrow> (Some x, j)
     | Inr j1 \<Rightarrow> (case markFailed e t2 j1 of
                   Inl (x, j2) \<Rightarrow> (Some x, j2)
                 | Inr j2 \<Rightarrow> (None, j2)))"

text \<open>
  The pair executed once for every element of a list, by a caller that catches what a round
  throws and goes on; an element gives the two clock readings and the thrown value of its
  round. The result is the errors thrown, in order, and the job after the last round.
\<close>

fun fail_rounds :: "(timestamp \<times> thrown \<times> timestamp) list \<Rightarrow> Job \<Rightarrow> error list \<times> Job" where
  "fail_rounds [] j = ([], j)"
| "fail_rounds ((t1, e, t2) # rs) j =
    (case fail_round t1 e t2 j of
       (None, j') \<Rightarrow> fail_rounds rs j'
     | (Some x, j') \<Rightarrow> (case fail_rounds rs j' of (xs, j'') \<Rightarrow> (x # xs, j'')))"

text \<open>
  The jobs a program can hold: built by one of the two factories and then driven through
  the transition methods.
\<close>

inductive constructed :: "Job \<Rightarrow> bool" where
  c_create: "create init uuid now = Inr j \<Longrightarrow> constructed j"
| c_fromJSON: "fromJSON json = Inr j \<Longrightarrow> constructed j"
| c_markProcessing: "constructed j \<Longrightarrow> markProcessing now j = Inr j' \<Longrightarrow> constructed j'"
| c_markCompleted: "constructed j \<Longrightarrow> markCompleted now j = Inr j' \<Longrightarrow> constructed j'"
| c_markFailed: "constructed j \<Longrightarrow> markFailed err now j = Inr j' \<Longrightarrow> constructed j'"
| c_markFailed_throws:
    "constructed j \<Longrightarrow> markFailed err now j = Inl (e, j') \<Longrightarrow> constructed j'"
| c_resetForRetry: "constructed j \<Longrightarrow> resetForRetry keep now j = Inr j' \<Longrightarrow> constructed j'"

definition valid_job :: "Job \<Rightarrow> bool" where
  "valid_job j \<longleftrightarrow> validate j = Inr () \<and> backoff_base j \<noteq> None"

subsection \<open>core/Queue.ts\<close>

text \<open>
  The queue's maps are partial functions; a \<open>Set<string>\<close> is the list of its members in
  insertion order, which is the order its iteration visits them in. The queue owns its
  jobs by value: a \<open>Job\<close> object changed in place by \<open>markProcessing\<close> and the like is the
  entry of \<open>jobs\<close> changed. A caller that mutates a job object behind the queue's back has
  to hand it to \<open>updateJob\<close>.
\<close>

record Queue =
  jobs :: "string \<rightharpoonup> Job"
  stateOf :: "string \<rightharpoonup> JobState"
  byState :: "JobState \<Rightarrow> string list"
  insertSeq :: int
  insertionOrder :: "string \<rightharpoonup> int"

definition Queue_new :: Queue where
  "Queue_new = \<lparr> jobs = Map.empty, stateOf = Map.empty, byState = (\<lambda>_. []),
                 insertSeq = 0, insertionOrder = Map.empty \<rparr>"

definition set_add :: "string \<Rightarrow> string list \<Rightarrow> string list" where
  "set_add x xs = (if x \<in> set xs then xs else xs @ [x])"

definition set_delete :: "string \<Rightarrow> string list \<Rightarrow> string list" where
  "set_delete x xs = filter (\<lambda>y. y \<noteq> x) xs"

definition moveState :: "string \<Rightarrow> JobState \<Rightarrow> Queue \<Rightarrow> Queue" where
  "moveState i next q =
    (let current = stateOf q i;
         bs1 = (case current of
                  None \<Rightarrow> byState q
                | Some c \<Rightarrow> if c \<noteq> next then (byState q)(c := set_delete i (byState q c))
                            else byState q);
         bs2 = bs1(next := set_add i (bs1 next))
     in q \<lparr> byState := bs2, stateOf := (stateOf q)(i \<mapsto> next) \<rparr>)"

definition requireJob :: "Queue \<Rightarrow> string \<Rightarrow> error + Job" where
  "requireJob q i = (case jobs q i of None \<Rightarrow> Inl (JobNotFound i) | Some job \<Rightarrow> Inr job)"

definition effectiveDueAt :: "timestamp \<Rightarrow> Job \<Rightarrow> timestamp option" where
  "effectiveDueAt now job =
    (if state job = Pending then
       (case run_at job of Some r \<Rightarrow> Some r | None \<Rightarrow> Some (created_at job))
     else if state job = Failed \<and> isRetryable job then
       (case next_attempt_at job of Some n \<Rightarrow> Some n | None \<Rightarrow> Some now)
     else None)"

definition enqueue :: "Job \<Rightarrow> Queue \<Rightarrow> error + Queue" where
  "enqueue job q =
    (if jobs q (job_id job) \<noteq> None then Inl (JobAlreadyExists (job_id job))
     else if state job \<noteq> Pending then Inl (EnqueueNotPending (state job))
     else Inr (q \<lparr> jobs := (jobs q)(job_id job \<mapsto> job),
                   stateOf := (stateOf q)(job_id job \<mapsto> state job),
                   byState := (byState q)(state job := set_add (job_id job) (byState q (state job))),
                   insertSeq := insertSeq q + 1,
                   insertionOrder := (insertionOrder q)(job_id job \<mapsto> insertSeq q + 1) \<rparr>))"

text \<open>
  The local variable \<open>selected\<close> of \<open>dequeue\<close>: id, dueAt and seq. The closure
  \<open>consider\<close> of the source takes it as an argument and returns its new value.
\<close>

type_synonym selection = "string \<times> timestamp \<times> int"

definition consider_id :: "Queue \<Rightarrow> timestamp \<Rightarrow> timestamp \<Rightarrow> selection option \<Rightarrow> string
    \<Rightarrow> selection option" where
  "consider_id q at now selected i =
    (case jobs q i of
       None \<Rightarrow> selected
     | Some job \<Rightarrow>
         if \<not> isDue job at then selected
         else (case effectiveDueAt now job of
                 None \<Rightarrow> selected
               | Some dueAt \<Rightarrow>
                   let seq = nullish (insertionOrder q i) 0
                   in (case selected of
                         None \<Rightarrow> Some (i, dueAt, seq)
                       | Some (si, sdue, sseq) \<Rightarrow>
                           if dueAt < sdue \<or> (dueAt = sdue \<and> seq < sseq)
                           then Some (i, dueAt, seq) else selected)))"

definition dequeue :: "timestamp \<Rightarrow> timestamp \<Rightarrow> Queue \<Rightarrow> error + (Job option \<times> Queue)" where
  "dequeue at now q =
    (let selected = foldl (consider_id q at now)
                      (foldl (consider_id q at now) None (byState q Pending))
                      (byState q Failed)
     in case selected of
          None \<Rightarrow> Inr (None, q)
        | Some (jobId, dueAt, seq) \<Rightarrow>
            (case requireJob q jobId of
               Inl e \<Rightarrow> Inl e
             | Inr job \<Rightarrow>
                 (case markProcessing now job of
                    Inl e \<Rightarrow> Inl e
                  | Inr job' \<Rightarrow>
                      Inr (Some job',
                           moveState (job_id job') Processing
                             (q \<lparr> jobs := (jobs q)(jobId \<mapsto> job') \<rparr>)))))"

definition updateJob :: "Job \<Rightarrow> Queue \<Rightarrow> error + Queue" where
  "updateJob updated q =
    (case requireJob q (job_id updated) of
       Inl e \<Rightarrow> Inl e
     | Inr existing \<Rightarrow>
         let prevState = stateOf q (job_id existing);
             nextState = state updated;
             q1 = q \<lparr> jobs := (jobs q)(job_id updated \<mapsto> updated) \<rparr>
         in if prevState \<noteq> Some nextState then
              let bs1 = (case prevState of
                           None \<Rightarrow> byState q1
                         | Some p \<Rightarrow> (byState q1)(p := set_delete (job_id updated) (byState q1 p)));
                  bs2 = bs1(nextState := set_add (job_id updated) (bs1 nextState))
              in Inr (q1 \<lparr> byState := bs2,
                           stateOf := (stateOf q1)(job_id updated \<mapsto> nextState) \<rparr>)
            else Inr q1)"

definition complete :: "string \<Rightarrow> timestamp \<Rightarrow> Queue \<Rightarrow> error + (Job \<times> Queue)" where
  "complete jobId now q =
    (case requireJob q jobId of
       Inl e \<Rightarrow> Inl e
     | Inr job \<Rightarrow>
         if stateOf q jobId \<noteq> Some Processing
         then Inl (CompleteRequiresProcessing (stateOf q jobId))
         else (case markCompleted now job of
                 Inl e \<Rightarrow> Inl e
               | Inr job' \<Rightarrow>
                   Inr (job', moveState jobId Completed
                                (q \<lparr> jobs := (jobs q)(jobId \<mapsto> job') \<rparr>))))"

text \<open>
  \<open>fail\<close> throws what \<open>markFailed\<close> throws. The job object is the queue's own, so a
  throw of \<open>markFailed\<close> after its assignments leaves the changed job in \<open>jobs\<close>, with
  the indexes untouched: \<open>Inl (e, q')\<close> is the error with the queue as the throw leaves
  it.
\<close>

definition fail :: "string \<Rightarrow> thrown \<Rightarrow> timestamp \<Rightarrow> Queue
    \<Rightarrow> (error \<times> Queue) + (Job \<times> Queue)" where
  "fail jobId err now q =
    (case requireJob q jobId of
       Inl e \<Rightarrow> Inl (e, q)
     | Inr job \<Rightarrow>
         if stateOf q jobId \<noteq> Some Processing
         then Inl (FailRequiresProcessing (stateOf q jobId), q)
         else (case markFailed err now job of
                 Inl (e, job') \<Rightarrow> Inl (e, q \<lparr> jobs := (jobs q)(jobId \<mapsto> job') \<rparr>)
               | Inr job' \<Rightarrow>
                   let q1 = q \<lparr> jobs := (jobs q)(jobId \<mapsto> job') \<rparr>
                   in if state job' = Dead then Inr (job', moveState jobId Dead q1)
                      else Inr (job', moveState jobId Failed q1)))"

text \<open>
  \<open>Job\<close> has no \<open>markPending\<close> method, so \<open>requeue\<close> always takes its fallback branch,
  which is the same three assignments for a leased and for a failed or pending job.
\<close>

definition requeue :: "string \<Rightarrow> timestamp \<Rightarrow> Queue \<Rightarrow> error + (Job \<times> Queue)" where
  "requeue jobId now q =
    (case requireJob q jobId of
       Inl e \<Rightarrow> Inl e
     | Inr job \<Rightarrow>
         if state job \<noteq> Failed \<and> state job \<noteq> Processing \<and> state job \<noteq> Pending
         then Inl (RequeueCannotApply (state job))
         else
           let job' = job \<lparr> state := Pending, next_attempt_at := None, updated_at := now \<rparr>
           in Inr (job', moveState jobId Pending (q \<lparr> jobs := (jobs q)(jobId \<mapsto> job') \<rparr>)))"

definition queue_resetForRetry :: "string \<Rightarrow> bool \<Rightarrow> timestamp \<Rightarrow> Queue
    \<Rightarrow> error + (Job \<times> Queue)" where
  "queue_resetForRetry jobId keepAttempts now q =
    (case requireJob q jobId of
       Inl e \<Rightarrow> Inl e
     | Inr job \<Rightarrow>
         (case resetForRetry keepAttempts now job of
            Inl e \<Rightarrow> Inl e
          | Inr job' \<Rightarrow>
              Inr (job', moveState jobId Pending (q \<lparr> jobs := (jobs q)(jobId \<mapsto> job') \<rparr>))))"

text \<open>
  A call of one of the queue's mutating methods. A call that throws leaves the queue as it
  was, as every method checks before it assigns; the one exception is \<open>fail\<close>.
\<close>

datatype queue_op =
    Enqueue Job
  | Dequeue timestamp timestamp
  | UpdateJob Job
  | Complete string timestamp
  | Fail string thrown timestamp
  | Requeue string timestamp
  | ResetForRetry string bool timestamp

text \<open>The queue after a call, and the job a \<open>dequeue\<close> call returned.\<close>

fun exec_op :: "queue_op \<Rightarrow> Queue \<Rightarrow> Queue \<times> Job option" where
  "exec_op (Enqueue job) q = (case enqueue job q of Inl e \<Rightarrow> (q, None) | Inr q' \<Rightarrow> (q', None))"
| "exec_op (Dequeue at now) q =
     (case dequeue at now q of Inl e \<Rightarrow> (q, None) | Inr (r, q') \<Rightarrow> (q', r))"
| "exec_op (UpdateJob job) q =
     (case updateJob job q of Inl e \<Rightarrow> (q, None) | Inr q' \<Rightarrow> (q', None))"
| "exec_op (Complete i now) q =
     (case complete i now q of Inl e \<Rightarrow> (q, None) | Inr (r, q') \<Rightarrow> (q', None))"
| "exec_op (Fail i err now) q =
     (case fail i err now q of Inl (e, q') \<Rightarrow> (q', None) | Inr (r, q') \<Rightarrow> (q', None))"
| "exec_op (Requeue i now) q =
     (case requeue i now q of Inl e \<Rightarrow> (q, None) | Inr (r, q') \<Rightarrow> (q', None))"
| "exec_op (ResetForRetry i keep now) q =
     (case queue_resetForRetry i keep now q of Inl e \<Rightarrow> (q, None) | Inr (r, q') \<Rightarrow> (q', None))"

fun run :: "queue_op list \<Rightarrow> Queue \<Rightarrow> Queue" where
  "run [] q = q"
| "run (op # ops) q = run ops (fst (exec_op op q))"

text \<open>The ids that the \<open>dequeue\<close> calls of a sequence of calls returned, in order.\<close>

fun dequeued :: "queue_op list \<Rightarrow> Queue \<Rightarrow> string list" where
  "dequeued [] q = []"
| "dequeued (op # ops) q =
     (case snd (exec_op op q) of
        None \<Rightarrow> dequeued ops (fst (exec_op op q))
      | Some j \<Rightarrow> job_id j # dequeued ops (fst (exec_op op q)))"

text \<open>The calls that the claim about repeated dequeues allows between two dequeues of a job.\<close>

fun touches :: "string \<Rightarrow> queue_op \<Rightarrow> bool" where
  "touches i (Complete k now) = (k = i)"
| "touches i (Fail k err now) = (k = i)"
| "touches i (Requeue k now) = (k = i)"
| "touches i (UpdateJob job) = (job_id job = i)"
| "touches i _ = False"

text \<open>
  The selection of \<open>dequeue\<close> in the words of the specification: the candidates are the due
  jobs of the \<open>pending\<close> and \<open>failed\<close> sets, and a candidate's key is its effective due
  time and its insertion sequence number, compared lexicographically.
\<close>

definition candidate :: "Queue \<Rightarrow> timestamp \<Rightarrow> string \<Rightarrow> bool" where
  "candidate q at i =
    ((i \<in> set (byState q Pending) \<or> i \<in> set (byState q Failed)) \<and>
     (case jobs q i of None \<Rightarrow> False | Some job \<Rightarrow> isDue job at))"

definition due_key :: "Queue \<Rightarrow> timestamp \<Rightarrow> string \<Rightarrow> timestamp \<times> int" where
  "due_key q now i =
    (case jobs q i of
       None \<Rightarrow> (0, 0)
     | Some job \<Rightarrow>
         (if state job = Pending then nullish (run_at job) (created_at job)
          else nullish (next_attempt_at job) now,
          nullish (insertionOrder q i) 0))"

definition key_less :: "timestamp \<times> int \<Rightarrow> timestamp \<times> int \<Rightarrow> bool" where
  "key_less a b = (fst a < fst b \<or> (fst a = fst b \<and> snd a < snd b))"

text \<open>A job that holds the lease: indexed as \<open>processing\<close> and in that state.\<close>

definition leased :: "Queue \<Rightarrow> string \<Rightarrow> bool" where
  "leased q i \<longleftrightarrow>
     stateOf q i = Some Processing \<and>
     (case jobs q i of None \<Rightarrow> False | Some j \<Rightarrow> state j = Processing)"

text \<open>
  What every method of the queue keeps true of its indexes. The state of a job and its
  index agree, but for a job that a throw of \<open>fail\<close> has left \<open>failed\<close> and indexed as
  \<open>processing\<close>.
\<close>

definition queue_inv :: "Queue \<Rightarrow> bool" where
  "queue_inv q \<longleftrightarrow>
     (\<forall>i j. jobs q i = Some j \<longrightarrow> job_id j = i \<and>
        (stateOf q i = Some (state j) \<or> (stateOf q i = Some Processing \<and> state j = Failed))) \<and>
     (\<forall>i s. i \<in> set (byState q s) \<longleftrightarrow> stateOf q i = Some s) \<and>
     (\<forall>i. stateOf q i \<noteq> None \<longrightarrow> jobs q i \<noteq> None \<and> insertionOrder q i \<noteq> None) \<and>
     (\<forall>i k n. insertionOrder q i = Some n \<and> insertionOrder q k = Some n \<longrightarrow> i = k) \<and>
     (\<forall>i n. insertionOrder q i = Some n \<longrightarrow> 0 < n \<and> n \<le> insertSeq q) \<and>
     0 \<le> insertSeq q"

subsection \<open>storage/JsonStorage.ts\<close>

text \<open>
  The two documents \<open>jobs.json\<close> and \<open>dlq.json\<close>. An operation below is the body that
  the source runs inside \<open>withLock\<close>: it reads the documents, and writes them back unless
  it throws or returns early. Writing a document and reading it again gives the same
  array of records; acquiring the lock and file-system failures are outside the model.
\<close>

record JsonStore =
  jobs_json :: "JobJSON list"
  dlq_json :: "JobJSON list"

fun findIndex :: "('a \<Rightarrow> bool) \<Rightarrow> 'a list \<Rightarrow> nat option" where
  "findIndex P [] = None"
| "findIndex P (x # xs) = (if P x then Some 0 else map_option Suc (findIndex P xs))"

text \<open>\<open>xs.splice(idx, 1)\<close>\<close>

definition splice1 :: "nat \<Rightarrow> 'a list \<Rightarrow> 'a list" where
  "splice1 idx xs = take idx xs @ drop (Suc idx) xs"

text \<open>
  \<open>Array.prototype.sort\<close> with a comparator: a stable sort; \<open>cmp a b\<close> is negative when
  \<open>a\<close> goes first.
\<close>

fun insert_sorted :: "('a \<Rightarrow> 'a \<Rightarrow> int) \<Rightarrow> 'a \<Rightarrow> 'a list \<Rightarrow> 'a list" where
  "insert_sorted cmp x [] = [x]"
| "insert_sorted cmp x (y # ys) =
     (if cmp x y \<le> 0 then x # y # ys else y # insert_sorted cmp x ys)"

definition sort_with :: "('a \<Rightarrow> 'a \<Rightarrow> int) \<Rightarrow> 'a list \<Rightarrow> 'a list" where
  "sort_with cmp xs = foldr (insert_sorted cmp) xs []"

definition json_effectiveDueAt :: "JobJSON \<Rightarrow> timestamp" where
  "json_effectiveDueAt j = nullish (next_attempt_at j) (nullish (run_at j) (created_at j))"

definition compare_candidates :: "JobJSON \<Rightarrow> JobJSON \<Rightarrow> int" where
  "compare_candidates a b =
    (let ad = json_effectiveDueAt a; bd = json_effectiveDueAt b
     in if ad \<noteq> bd then ad - bd else created_at a - created_at b)"

definition json_enqueue :: "Job \<Rightarrow> JsonStore \<Rightarrow> error + JsonStore" where
  "json_enqueue job st =
    (if list_ex (\<lambda>j. job_id j = job_id job) (jobs_json st)
     then Inl (JobAlreadyExists (job_id job))
     else Inr (st \<lparr> jobs_json := jobs_json st @ [toJSON job] \<rparr>))"

definition json_update :: "Job \<Rightarrow> JsonStore \<Rightarrow> error + JsonStore" where
  "json_update job st =
    (case findIndex (\<lambda>j. job_id j = job_id job) (jobs_json st) of
       None \<Rightarrow> Inl (JobNotFound (job_id job))
     | Some idx \<Rightarrow> Inr (st \<lparr> jobs_json := (jobs_json st)[idx := toJSON job] \<rparr>))"

definition json_moveToDLQ :: "Job \<Rightarrow> JsonStore \<Rightarrow> error + JsonStore" where
  "json_moveToDLQ job st =
    (let jobs1 = (case findIndex (\<lambda>j. job_id j = job_id job) (jobs_json st) of
                    None \<Rightarrow> jobs_json st
                  | Some idx \<Rightarrow> splice1 idx (jobs_json st));
         dlq1 = dlq_json st @ [toJSON job]
     in Inr (st \<lparr> jobs_json := jobs1, dlq_json := dlq1 \<rparr>))"

text \<open>The loop of \<open>leaseNext\<close> that collects the due records; \<open>fromJSON\<close> may throw.\<close>

fun due_candidates :: "timestamp \<Rightarrow> JobJSON list \<Rightarrow> error + JobJSON list" where
  "due_candidates at [] = Inr []"
| "due_candidates at (j # js) =
     (case fromJSON j of
        Inl e \<Rightarrow> Inl e
      | Inr job \<Rightarrow>
          (case due_candidates at js of
             Inl e \<Rightarrow> Inl e
           | Inr cs \<Rightarrow> Inr (if isDue job at then j # cs else cs)))"

definition json_leaseNext :: "timestamp \<Rightarrow> timestamp \<Rightarrow> JsonStore
    \<Rightarrow> error + (Job option \<times> JsonStore)" where
  "json_leaseNext at now st =
    (case due_candidates at (jobs_json st) of
       Inl e \<Rightarrow> Inl e
     | Inr candidates \<Rightarrow>
         (case sort_with compare_candidates candidates of
            [] \<Rightarrow> Inr (None, st)
          | selected # _ \<Rightarrow>
              (case findIndex (\<lambda>j. job_id j = job_id selected) (jobs_json st) of
                 None \<Rightarrow> Inr (None, st)
               | Some idx \<Rightarrow>
                   let leased = (jobs_json st ! idx) \<lparr> state := Processing, updated_at := now \<rparr>;
                       st' = st \<lparr> jobs_json := (jobs_json st)[idx := leased] \<rparr>
                   in (case fromJSON leased of
                         Inl e \<Rightarrow> Inl e
                       | Inr job \<Rightarrow> Inr (Some job, st')))))"

fun all_fromJSON :: "JobJSON list \<Rightarrow> error + Job list" where
  "all_fromJSON [] = Inr []"
| "all_fromJSON (j # js) =
     (case fromJSON j of
        Inl e \<Rightarrow> Inl e
      | Inr job \<Rightarrow> (case all_fromJSON js of Inl e \<Rightarrow> Inl e | Inr jobs' \<Rightarrow> Inr (job # jobs')))"

definition json_list :: "JobState option \<Rightarrow> JsonStore \<Rightarrow> error + Job list" where
  "json_list st_filter st =
    all_fromJSON (case st_filter of
                    None \<Rightarrow> jobs_json st
                  | Some s \<Rightarrow> filter (\<lambda>j. state j = s) (jobs_json st))"

definition json_listDLQ :: "JsonStore \<Rightarrow> error + Job list" where
  "json_listDLQ st = all_fromJSON (dlq_json st)"

definition json_retryFromDLQ :: "string \<Rightarrow> timestamp \<Rightarrow> JsonStore
    \<Rightarrow> error + (Job option \<times> JsonStore)" where
  "json_retryFromDLQ i now st =
    (case findIndex (\<lambda>j. job_id j = i) (dlq_json st) of
       None \<Rightarrow> Inr (None, st)
     | Some idx \<Rightarrow>
         let payload = dlq_json st ! idx;
             dlq1 = splice1 idx (dlq_json st)
         in (case fromJSON payload of
               Inl e \<Rightarrow> Inl e
             | Inr job0 \<Rightarrow>
                 (case resetForRetry False now job0 of
                    Inl e \<Rightarrow> Inl e
                  | Inr job \<Rightarrow>
                      let jobs1 =
                            (if list_ex (\<lambda>j. job_id j = job_id job) (jobs_json st)
                             then (case findIndex (\<lambda>j. job_id j = job_id job) (jobs_json st) of
                                     None \<Rightarrow> jobs_json st
                                   | Some jdx \<Rightarrow> (jobs_json st)[jdx := toJSON job])
                             else jobs_json st @ [toJSON job])
                      in Inr (Some job, st \<lparr> jobs_json := jobs1, dlq_json := dlq1 \<rparr>))))"

subsection \<open>storage/SqliteStorage.ts\<close>

text \<open>
  The two tables, each the list of its rows in insertion order. A row of \<open>jobs\<close> has the
  columns of a job, \<open>NULL\<close> being \<open>None\<close>. The \<open>payload\<close> of a row of \<open>dlq\<close> is the record
  that \<open>JSON.parse\<close> gives, \<open>None\<close> for a text it rejects. A statement that violates a
  primary key throws; a transaction that throws is rolled back, so the \<open>Inl\<close> branch
  carries no new state. Among rows that \<open>ORDER BY\<close> does not tell apart, \<open>LIMIT 1\<close> is
  taken to give the one inserted first.
\<close>

record DlqRow =
  dlq_id :: string
  payload :: "JobJSON option"
  dead_at :: timestamp

record SqliteDb =
  jobs_table :: "Job list"
  dlq_table :: "DlqRow list"

definition rowToJSON :: "Job \<Rightarrow> JobJSON" where
  "rowToJSON row =
    \<lparr> job_id = job_id row,
      command = command row,
      state = state row,
      attempts = attempts row,
      max_retries = max_retries row,
      created_at = created_at row,
      updated_at = updated_at row,
      run_at = run_at row,
      next_attempt_at = next_attempt_at row,
      backoff_base = backoff_base row,
      last_error = last_error row \<rparr>"

definition sqlite_enqueue :: "Job \<Rightarrow> SqliteDb \<Rightarrow> error + SqliteDb" where
  "sqlite_enqueue job db =
    (let j = toJSON job
     in if list_ex (\<lambda>r. job_id r = job_id j) (jobs_table db)
        then Inl SqliteConstraintPrimaryKey
        else Inr (db \<lparr> jobs_table := jobs_table db @ [j] \<rparr>))"

definition sqlite_update :: "Job \<Rightarrow> SqliteDb \<Rightarrow> SqliteDb" where
  "sqlite_update job db =
    (let j = toJSON job
     in db \<lparr> jobs_table := map (\<lambda>r. if job_id r = job_id j then j else r) (jobs_table db) \<rparr>)"

text \<open>The \<open>WHERE\<close> clause shared by the two statements of \<open>leaseNext\<close>.\<close>

definition sqlite_due :: "timestamp \<Rightarrow> Job \<Rightarrow> bool" where
  "sqlite_due t r =
    ((state r = Pending \<and> (case run_at r of None \<Rightarrow> True | Some x \<Rightarrow> x \<le> t))
     \<or> (state r = Failed \<and> (case next_attempt_at r of None \<Rightarrow> True | Some x \<Rightarrow> x \<le> t)))"

text \<open>\<open>ORDER BY COALESCE(next_attempt_at, run_at, created_at) ASC, created_at ASC\<close>\<close>

definition sqlite_order :: "Job \<Rightarrow> Job \<Rightarrow> int" where
  "sqlite_order a b =
    (let ka = nullish (next_attempt_at a) (nullish (run_at a) (created_at a));
         kb = nullish (next_attempt_at b) (nullish (run_at b) (created_at b))
     in if ka \<noteq> kb then ka - kb else created_at a - created_at b)"

definition selectStmt :: "timestamp \<Rightarrow> SqliteDb \<Rightarrow> string option" where
  "selectStmt t db =
    (case sort_with sqlite_order (filter (sqlite_due t) (jobs_table db)) of
       [] \<Rightarrow> None
     | r # _ \<Rightarrow> Some (job_id r))"

text \<open>The conditional update; the second component is \<open>res.changes\<close>.\<close>

definition updateStmt :: "timestamp \<Rightarrow> string \<Rightarrow> SqliteDb \<Rightarrow> SqliteDb \<times> nat" where
  "updateStmt now i db =
    (db \<lparr> jobs_table :=
            map (\<lambda>r. if job_id r = i \<and> sqlite_due now r
                     then r \<lparr> state := Processing, updated_at := now \<rparr> else r)
                (jobs_table db) \<rparr>,
     length (filter (\<lambda>r. job_id r = i \<and> sqlite_due now r) (jobs_table db)))"

definition getStmt :: "string \<Rightarrow> SqliteDb \<Rightarrow> Job option" where
  "getStmt i db = find (\<lambda>r. job_id r = i) (jobs_table db)"

text \<open>The \<open>for\<close> loop of the transaction, with the number of rounds left.\<close>

fun lease_tx :: "nat \<Rightarrow> timestamp \<Rightarrow> SqliteDb \<Rightarrow> Job option \<times> SqliteDb" where
  "lease_tx 0 nowISO db = (None, db)"
| "lease_tx (Suc n) nowISO db =
     (case selectStmt nowISO db of
        None \<Rightarrow> (None, db)
      | Some i \<Rightarrow>
          (case updateStmt nowISO i db of
             (db', changes) \<Rightarrow>
               if changes = 1 then (getStmt i db', db') else lease_tx n nowISO db'))"

text \<open>
  \<open>leaseNext\<close> hydrates the row after the transaction has committed, so that a throwing
  \<open>fromJSON\<close> comes with the new database.
\<close>

definition sqlite_leaseNext :: "timestamp \<Rightarrow> SqliteDb \<Rightarrow> (error + Job option) \<times> SqliteDb" where
  "sqlite_leaseNext at db =
    (case lease_tx 5 at db of
       (None, db') \<Rightarrow> (Inr None, db')
     | (Some row, db') \<Rightarrow>
         (case fromJSON (rowToJSON row) of
            Inl e \<Rightarrow> (Inl e, db')
          | Inr job \<Rightarrow> (Inr (Some job), db')))"

definition sqlite_moveToDLQ :: "Job \<Rightarrow> timestamp \<Rightarrow> SqliteDb \<Rightarrow> error + SqliteDb" where
  "sqlite_moveToDLQ job now db =
    (let j = toJSON job;
         db1 = db \<lparr> jobs_table := filter (\<lambda>r. job_id r \<noteq> job_id j) (jobs_table db) \<rparr>
     in if list_ex (\<lambda>d. dlq_id d = job_id j) (dlq_table db1)
        then Inl SqliteConstraintPrimaryKey
        else Inr (db1 \<lparr> dlq_table := dlq_table db1 @
                          [\<lparr> dlq_id = job_id j, payload = Some j, dead_at = now \<rparr>] \<rparr>))"

text \<open>\<open>listDLQ\<close> skips a payload that does not parse or does not validate.\<close>

definition sqlite_listDLQ :: "SqliteDb \<Rightarrow> Job list" where
  "sqlite_listDLQ db =
    concat (map (\<lambda>d. case payload d of
                        None \<Rightarrow> []
                      | Some obj \<Rightarrow> (case fromJSON obj of Inl e \<Rightarrow> [] | Inr job \<Rightarrow> [job]))
                (sort_key dead_at (dlq_table db)))"

definition sqlite_retryFromDLQ :: "string \<Rightarrow> timestamp \<Rightarrow> SqliteDb
    \<Rightarrow> error + (Job option \<times> SqliteDb)" where
  "sqlite_retryFromDLQ i now db =
    (case find (\<lambda>d. dlq_id d = i) (dlq_table db) of
       None \<Rightarrow> Inr (None, db)
     | Some row \<Rightarrow>
         let db1 = db \<lparr> dlq_table := filter (\<lambda>d. dlq_id d \<noteq> i) (dlq_table db) \<rparr>
         in (case payload row of
               None \<Rightarrow> Inr (None, db1)
             | Some parsed \<Rightarrow>
                 (case fromJSON parsed of
                    Inl e \<Rightarrow> Inl e
                  | Inr j0 \<Rightarrow>
                      (case resetForRetry False now j0 of
                         Inl e \<Rightarrow> Inl e
                       | Inr j \<Rightarrow>
                           (case sqlite_enqueue j db1 of
                              Inl e \<Rightarrow> Inl e
                            | Inr db2 \<Rightarrow> Inr (Some j, db2))))))"

subsection \<open>Reachable jobs and sample data\<close>

text \<open>
  The jobs reachable from \<open>create\<close> through the transition methods and through the leasing
  of the two backends. A backend leases from a collection of records of reachable jobs; the
  table of the relational backend satisfies its primary key.
\<close>

inductive lifecycle :: "Job \<Rightarrow> bool" where
  l_create: "create init uuid now = Inr j \<Longrightarrow> lifecycle j"
| l_markProcessing: "lifecycle j \<Longrightarrow> markProcessing now j = Inr j' \<Longrightarrow> lifecycle j'"
| l_markCompleted: "lifecycle j \<Longrightarrow> markCompleted now j = Inr j' \<Longrightarrow> lifecycle j'"
| l_markFailed: "lifecycle j \<Longrightarrow> markFailed err now j = Inr j' \<Longrightarrow> lifecycle j'"
| l_markFailed_throws:
    "lifecycle j \<Longrightarrow> markFailed err now j = Inl (e, j') \<Longrightarrow> lifecycle j'"
| l_resetForRetry: "lifecycle j \<Longrightarrow> resetForRetry keep now j = Inr j' \<Longrightarrow> lifecycle j'"
| l_json_lease:
    "(\<forall>r. r \<in> set (jobs_json st) \<longrightarrow> lifecycle r) \<Longrightarrow>
     json_leaseNext at now st = Inr (Some j', st') \<Longrightarrow> lifecycle j'"
| l_sqlite_lease:
    "(\<forall>r. r \<in> set (jobs_table db) \<longrightarrow> lifecycle r) \<Longrightarrow>
     distinct (map job_id (jobs_table db)) \<Longrightarrow>
     sqlite_leaseNext at db = (Inr (Some j'), db') \<Longrightarrow> lifecycle j'"

text \<open>
  The job of the end-to-end scenario: \<open>command = "X"\<close>, \<open>max_retries = 1\<close>,
  \<open>backoff_base = 2\<close>, created at instant 1000; and the same job after it was leased and
  failed at instant 3000.
\<close>

definition sample_init :: JobInit where
  "sample_init = \<lparr> init_id = Some ''job-x'', init_command = ''X'', init_max_retries = Some 1,
                   init_backoff_base = Some (Dyadic 2 0), init_run_at = None \<rparr>"

definition sample_job :: Job where
  "sample_job = \<lparr> job_id = ''job-x'', command = ''X'', state = Pending, attempts = 0,
                  max_retries = 1, created_at = 1000, updated_at = 1000, run_at = None,
                  next_attempt_at = None, backoff_base = Some (Dyadic 2 0),
                  last_error = None \<rparr>"

definition sample_failed :: Job where
  "sample_failed = sample_job \<lparr> state := Failed, attempts := 1, updated_at := 3000,
                                next_attempt_at := Some 5000, last_error := Some ''first fail'' \<rparr>"

definition sample_dead :: Job where
  "sample_dead = sample_job \<lparr> state := Dead, attempts := 2, updated_at := 7000,
                              last_error := Some ''second fail'' \<rparr>"

text \<open>The sample job while leased for the first time and while leased for its retry.\<close>

definition sample_leased :: Job where
  "sample_leased = sample_job \<lparr> state := Processing, updated_at := 2000 \<rparr>"

definition sample_released :: Job where
  "sample_released = sample_failed \<lparr> state := Processing, updated_at := 6000 \<rparr>"

text \<open>
  Two more jobs for the queue: one created at the same instant as the sample job, and one
  created later but scheduled for an earlier instant. Then the leased sample job with two
  other backoff bases: 94906267, whose square is an odd
  integer above \<open>2 ^ 53\<close>, and \<open>10 ^ 13\<close>, with which the first retry would be due
  \<open>10 ^ 16\<close> milliseconds from now.
\<close>

definition sample_second :: Job where
  "sample_second = sample_job \<lparr> job_id := ''job-y'' \<rparr>"

definition sample_scheduled :: Job where
  "sample_scheduled = sample_job \<lparr> job_id := ''job-z'', created_at := 1500, updated_at := 1500,
                                   run_at := Some 500 \<rparr>"



section \<open>Properties\<close>

subsection \<open>Job\<close>

lemma toJSON_ident: "toJSON j = j"
  by (simp add: toJSON_def)

lemma validate_Inr_iff:
  "validate j = Inr u \<longleftrightarrow>
     job_id j \<noteq> [] \<and> command j \<noteq> [] \<and> 0 \<le> attempts j \<and> 0 \<le> max_retries j
     \<and> \<not> less_than_one (nullish (backoff_base j) DEFAULT_BACKOFF_BASE)"
  by (auto simp: validate_def)

lemma markProcessing_Inr:
  "markProcessing now j = Inr j' \<Longrightarrow>
     j' = j \<lparr> state := Processing, updated_at := now \<rparr> \<and> (state j = Pending \<or> state j = Failed)"
  by (auto simp: markProcessing_def split: if_splits)

lemma markFailed_Inr:
  assumes "markFailed err now j = Inr j'"
  shows "state j = Processing \<and>
         (attempts j + 1 > max_retries j \<and>
            j' = j \<lparr> attempts := attempts j + 1, updated_at := now,
                      last_error := Some (errMsg_of err), state := Dead,
                      next_attempt_at := None \<rparr>
          \<or> attempts j + 1 \<le> max_retries j \<and>
            (\<exists>t. addSeconds now (getBackoffDelaySeconds j (nat (attempts j + 1))) = Some t \<and>
               j' = j \<lparr> attempts := attempts j + 1, updated_at := now,
                         last_error := Some (errMsg_of err), state := Failed,
                         next_attempt_at := Some t \<rparr>))"
proof -
  have g: "\<And>a u l. getBackoffDelaySeconds (j \<lparr> attempts := a, updated_at := u, last_error := l \<rparr>)
             = getBackoffDelaySeconds j"
    by (rule ext) (simp add: getBackoffDelaySeconds_def)
  show ?thesis
    using assms unfolding markFailed_def Let_def toISOString_def
    by (simp add: g split: if_splits option.splits)
qed

lemma markFailed_Inl:
  assumes "markFailed err now j = Inl (e, j')"
  shows "e = CannotMarkFailed (state j) \<and> j' = j \<and> state j \<noteq> Processing
         \<or> e = InvalidTimeValue \<and> state j = Processing \<and> attempts j + 1 \<le> max_retries j \<and>
           addSeconds now (getBackoffDelaySeconds j (nat (attempts j + 1))) = None \<and>
           j' = j \<lparr> attempts := attempts j + 1, updated_at := now,
                     last_error := Some (errMsg_of err), state := Failed \<rparr>"
proof -
  have g: "\<And>a u l. getBackoffDelaySeconds (j \<lparr> attempts := a, updated_at := u, last_error := l \<rparr>)
             = getBackoffDelaySeconds j"
    by (rule ext) (simp add: getBackoffDelaySeconds_def)
  show ?thesis
    using assms unfolding markFailed_def Let_def toISOString_def
    by (auto simp: g split: if_splits option.splits)
qed

lemma markFailed_from_processing:
  assumes "state j = Processing"
  shows "(\<exists>j'. markFailed e t j = Inr j' \<or> markFailed e t j = Inl (InvalidTimeValue, j'))"
proof -
  have g: "\<And>a u l. getBackoffDelaySeconds (j \<lparr> attempts := a, updated_at := u, last_error := l \<rparr>)
             = getBackoffDelaySeconds j"
    by (rule ext) (simp add: getBackoffDelaySeconds_def)
  show ?thesis
    using assms unfolding markFailed_def Let_def toISOString_def
    by (simp add: g split: if_splits option.splits)
qed

lemma create_valid: "create init uuid now = Inr j \<Longrightarrow> valid_job j"
  by (auto simp: create_def valid_job_def Let_def split: sum.splits)

lemma fromJSON_valid: "fromJSON json = Inr j \<Longrightarrow> valid_job j"
  by (auto simp: fromJSON_def valid_job_def Let_def split: sum.splits)

lemma markProcessing_valid: "valid_job j \<Longrightarrow> markProcessing now j = Inr j' \<Longrightarrow> valid_job j'"
  by (auto simp: markProcessing_def valid_job_def validate_Inr_iff split: if_splits)

lemma markCompleted_valid: "valid_job j \<Longrightarrow> markCompleted now j = Inr j' \<Longrightarrow> valid_job j'"
  by (auto simp: markCompleted_def valid_job_def validate_Inr_iff split: if_splits)

lemma markFailed_valid:
  assumes "valid_job j" and "markFailed err now j = Inr j'"
  shows "valid_job j'"
  using assms(1) markFailed_Inr[OF assms(2)]
  by (auto simp: valid_job_def validate_Inr_iff)

lemma markFailed_throws_valid:
  assumes "valid_job j" and "markFailed err now j = Inl (e, j')"
  shows "valid_job j'"
  using assms(1) markFailed_Inl[OF assms(2)]
  by (auto simp: valid_job_def validate_Inr_iff)

lemma resetForRetry_valid: "valid_job j \<Longrightarrow> resetForRetry keep now j = Inr j' \<Longrightarrow> valid_job j'"
  by (auto simp: resetForRetry_def valid_job_def validate_Inr_iff Let_def split: if_splits)

lemma constructed_valid: "constructed j \<Longrightarrow> valid_job j"
proof (induction rule: constructed.induct)
  case (c_create init uuid now j)
  then show ?case by (rule create_valid)
next
  case (c_fromJSON json j)
  then show ?case by (rule fromJSON_valid)
next
  case (c_markProcessing j now j')
  then show ?case using markProcessing_valid by blast
next
  case (c_markCompleted j now j')
  then show ?case using markCompleted_valid by blast
next
  case (c_markFailed j err now j')
  then show ?case using markFailed_valid by blast
next
  case (c_markFailed_throws j err now e j')
  then show ?case using markFailed_throws_valid by blast
next
  case (c_resetForRetry j keep now j')
  then show ?case using resetForRetry_valid by blast
qed

lemma toISO_ident: "toISO d = d"
  by (cases d) (simp_all add: toISO_def)

lemma fromJSON_of_valid:
  assumes "valid_job j"
  shows "fromJSON j = Inr j"
proof -
  from assms obtain b where b: "backoff_base j = Some b" and v: "validate j = Inr ()"
    by (auto simp: valid_job_def)
  have eq: "j \<lparr> backoff_base := Some b \<rparr> = j"
    using b by simp
  show ?thesis
    by (simp add: fromJSON_def toISO_ident nullish_def b eq v)
qed

text \<open>
  Claim C8. For every job built by \<open>create\<close> or \<open>fromJSON\<close> and then driven through any
  number of transition methods, \<open>Job.fromJSON(job.toJSON())\<close> does not throw and gives back
  the same record: id, command, state, attempts, max_retries, created_at, updated_at,
  backoff_base, last_error, and \<open>run_at\<close> and \<open>next_attempt_at\<close> present or absent as
  they were.
\<close>
theorem fromJSON_toJSON_roundtrip:
  "constructed j \<Longrightarrow> fromJSON (toJSON j) = Inr j"
  by (simp add: toJSON_ident fromJSON_of_valid constructed_valid)

lemma fail_round_step:
  assumes "state j = Pending \<or> state j = Failed"
  shows "attempts (snd (fail_round t1 e t2 j)) = attempts j + 1
         \<and> max_retries (snd (fail_round t1 e t2 j)) = max_retries j
         \<and> state (snd (fail_round t1 e t2 j)) =
             (if attempts j + 1 \<le> max_retries j then Failed else Dead)
         \<and> (fst (fail_round t1 e t2 j) = None \<or> fst (fail_round t1 e t2 j) = Some InvalidTimeValue)"
proof -
  let ?j1 = "j \<lparr> state := Processing, updated_at := t1 \<rparr>"
  have mp: "markProcessing t1 j = Inr ?j1"
    using assms by (auto simp: markProcessing_def)
  have p: "state ?j1 = Processing" by simp
  from markFailed_from_processing[OF p, of e t2] obtain j2 where
    c: "markFailed e t2 ?j1 = Inr j2 \<or> markFailed e t2 ?j1 = Inl (InvalidTimeValue, j2)"
    by (elim exE)
  from c show ?thesis
  proof
    assume r: "markFailed e t2 ?j1 = Inr j2"
    have fr: "fail_round t1 e t2 j = (None, j2)"
      by (simp add: fail_round_def mp r)
    from markFailed_Inr[OF r] show ?thesis
      unfolding fr by auto
  next
    assume r: "markFailed e t2 ?j1 = Inl (InvalidTimeValue, j2)"
    have fr: "fail_round t1 e t2 j = (Some InvalidTimeValue, j2)"
      by (simp add: fail_round_def mp r)
    from markFailed_Inl[OF r] show ?thesis
      unfolding fr by auto
  qed
qed

lemma fail_rounds_Cons:
  "snd (fail_rounds ((t1, e, t2) # rs) j) = snd (fail_rounds rs (snd (fail_round t1 e t2 j)))
   \<and> set (fst (fail_rounds ((t1, e, t2) # rs) j)) =
       (case fst (fail_round t1 e t2 j) of None \<Rightarrow> {} | Some x \<Rightarrow> {x})
       \<union> set (fst (fail_rounds rs (snd (fail_round t1 e t2 j))))"
  by (cases "fail_round t1 e t2 j") (auto split: option.splits prod.splits)

lemma fail_rounds_gen:
  assumes "state j = Pending \<or> state j = Failed"
    and "attempts j + int (length rs) \<le> max_retries j + 1"
  shows "attempts (snd (fail_rounds rs j)) = attempts j + int (length rs)
         \<and> max_retries (snd (fail_rounds rs j)) = max_retries j
         \<and> state (snd (fail_rounds rs j)) =
             (if rs = [] then state j
              else if attempts j + int (length rs) \<le> max_retries j then Failed else Dead)
         \<and> set (fst (fail_rounds rs j)) \<subseteq> {InvalidTimeValue}"
  using assms
proof (induction rs arbitrary: j)
  case Nil
  then show ?case by simp
next
  case (Cons r rs)
  obtain t1 e t2 where r: "r = (t1, e, t2)" by (cases r)
  let ?j2 = "snd (fail_round t1 e t2 j)"
  note st = fail_round_step[OF Cons.prems(1), of t1 e t2]
  have errs: "(case fst (fail_round t1 e t2 j) of None \<Rightarrow> {} | Some x \<Rightarrow> {x})
                \<subseteq> {InvalidTimeValue}"
    using st by auto
  show ?case
  proof (cases "rs = []")
    case True
    then show ?thesis using r st errs fail_rounds_Cons[of t1 e t2 "[]" j] by simp
  next
    case False
    then have "1 \<le> int (length rs)" by (cases rs) simp_all
    moreover have "int (length (r # rs)) = int (length rs) + 1" by simp
    ultimately have le: "attempts j + 1 \<le> max_retries j"
      using Cons.prems(2) by linarith
    then have s2: "state ?j2 = Pending \<or> state ?j2 = Failed" using st by simp
    have b2: "attempts ?j2 + int (length rs) \<le> max_retries ?j2 + 1"
      using st Cons.prems(2) by simp
    note ih = Cons.IH[OF s2 b2]
    have a: "attempts (snd (fail_rounds (r # rs) j)) = attempts j + int (length (r # rs))"
      using ih st fail_rounds_Cons[of t1 e t2 rs j] r by simp
    have m: "max_retries (snd (fail_rounds (r # rs) j)) = max_retries j"
      using ih st fail_rounds_Cons[of t1 e t2 rs j] r by simp
    have s: "state (snd (fail_rounds (r # rs) j)) =
               (if attempts j + int (length (r # rs)) \<le> max_retries j then Failed else Dead)"
      using ih st fail_rounds_Cons[of t1 e t2 rs j] r False by (simp add: add.assoc)
    have x: "set (fst (fail_rounds (r # rs) j)) \<subseteq> {InvalidTimeValue}"
      using ih errs fail_rounds_Cons[of t1 e t2 rs j] r by simp
    from a m s x show ?thesis by simp
  qed
qed

text \<open>
  Claim C4. A job created with \<open>max_retries = m\<close> is taken through \<open>k \<le> m + 1\<close> rounds of
  \<open>markProcessing(); markFailed(e)\<close>. After them \<open>attempts = k\<close>, and the state is
  \<open>failed\<close> for \<open>1 \<le> k \<le> m\<close> and \<open>dead\<close> for \<open>k = m + 1\<close>. This holds whether or not
  a round throws: \<open>markProcessing\<close> does not throw in these rounds, and the one error
  \<open>markFailed\<close> can throw is the \<open>RangeError\<close> of \<open>toISOString\<close> on a retry instant
  outside the range of \<open>Date\<close>, which comes after \<open>attempts\<close> and \<open>state\<close> are assigned.
\<close>
theorem fail_rounds_failed_then_dead:
  assumes "create init uuid now = Inr j"
    and "int (length rs) \<le> max_retries j + 1"
  shows "attempts (snd (fail_rounds rs j)) = int (length rs)
         \<and> state (snd (fail_rounds rs j)) =
             (if rs = [] then Pending
              else if int (length rs) \<le> max_retries j then Failed else Dead)
         \<and> set (fst (fail_rounds rs j)) \<subseteq> {InvalidTimeValue}"
proof -
  have "state j = Pending" "attempts j = 0"
    using assms(1) by (auto simp: create_def Let_def split: sum.splits)
  then show ?thesis using fail_rounds_gen[of j rs] assms(2) by simp
qed

subsection \<open>The backoff delay\<close>






lemma sample_create: "create sample_init ''uuid'' 1000 = Inr sample_job"
  by code_simp

lemma sample_lease: "markProcessing 2000 sample_job = Inr sample_leased"
  by code_simp

lemma sample_fail: "markFailed (ErrorObject ''first fail'') 3000 sample_leased = Inr sample_failed"
  by code_simp

lemma sample_release: "markProcessing 6000 sample_failed = Inr sample_released"
  by code_simp




subsection \<open>The sample job: round trip and retries\<close>

text \<open>Claim C8 at the sample job after its first failure.\<close>
theorem fromJSON_toJSON_roundtrip_witness:
  "constructed sample_failed \<and> fromJSON (toJSON sample_failed) = Inr sample_failed"
proof -
  have "constructed sample_failed"
    by (rule c_markFailed[OF _ sample_fail], rule c_markProcessing[OF _ sample_lease],
        rule c_create[OF sample_create])
  then show ?thesis using fromJSON_toJSON_roundtrip[of sample_failed] by simp
qed

text \<open>
  Claim C4 at the sample job (\<open>max_retries = 1\<close>): failed after one round, dead after two,
  no round throwing; and at the same job with base 1e13, whose first round throws the
  \<open>RangeError\<close> and which is dead with \<open>attempts = 2\<close> after two rounds all the same.
\<close>
theorem fail_rounds_failed_then_dead_witness:
  "create sample_init ''uuid'' 1000 = Inr sample_job
   \<and> attempts (snd (fail_rounds [(2000, ErrorObject ''first fail'', 3000)] sample_job)) = 1
   \<and> state (snd (fail_rounds [(2000, ErrorObject ''first fail'', 3000)] sample_job)) = Failed
   \<and> attempts (snd (fail_rounds [(2000, ErrorObject ''first fail'', 3000),
                                  (6000, StringValue ''second fail'', 7000)] sample_job)) = 2
   \<and> state (snd (fail_rounds [(2000, ErrorObject ''first fail'', 3000),
                               (6000, StringValue ''second fail'', 7000)] sample_job)) = Dead
   \<and> fst (fail_rounds [(2000, ErrorObject ''first fail'', 3000),
                        (6000, StringValue ''second fail'', 7000)] sample_job) = []
   \<and> create (sample_init \<lparr> init_backoff_base := Some (Dyadic 10000000000000 0) \<rparr>) ''uuid'' 1000
       = Inr (sample_job \<lparr> backoff_base := Some (Dyadic 10000000000000 0) \<rparr>)
   \<and> fst (fail_rounds [(2000, ErrorObject ''first fail'', 3000),
                        (6000, StringValue ''second fail'', 7000)]
             (sample_job \<lparr> backoff_base := Some (Dyadic 10000000000000 0) \<rparr>))
       = [InvalidTimeValue]
   \<and> attempts (snd (fail_rounds [(2000, ErrorObject ''first fail'', 3000),
                                  (6000, StringValue ''second fail'', 7000)]
                       (sample_job \<lparr> backoff_base := Some (Dyadic 10000000000000 0) \<rparr>))) = 2
   \<and> state (snd (fail_rounds [(2000, ErrorObject ''first fail'', 3000),
                               (6000, StringValue ''second fail'', 7000)]
                    (sample_job \<lparr> backoff_base := Some (Dyadic 10000000000000 0) \<rparr>))) = Dead"
proof -
  let ?r1 = "(2000::int, ErrorObject ''first fail'', 3000::int)"
  let ?r2 = "(6000::int, StringValue ''second fail'', 7000::int)"
  let ?h = "sample_job \<lparr> backoff_base := Some (Dyadic 10000000000000 0) \<rparr>"
  have m: "max_retries sample_job = 1" by code_simp
  have mh: "max_retries ?h = 1" by code_simp
  have ch: "create (sample_init \<lparr> init_backoff_base := Some (Dyadic 10000000000000 0) \<rparr>)
              ''uuid'' 1000 = Inr ?h"
    by code_simp
  have one: "attempts (snd (fail_rounds [?r1] sample_job)) = 1
             \<and> state (snd (fail_rounds [?r1] sample_job)) = Failed"
    using fail_rounds_failed_then_dead[OF sample_create, of "[?r1]"] by (simp add: m)
  have two: "attempts (snd (fail_rounds [?r1, ?r2] sample_job)) = 2
             \<and> state (snd (fail_rounds [?r1, ?r2] sample_job)) = Dead"
    using fail_rounds_failed_then_dead[OF sample_create, of "[?r1, ?r2]"] by (simp add: m)
  have twoh: "attempts (snd (fail_rounds [?r1, ?r2] ?h)) = 2
             \<and> state (snd (fail_rounds [?r1, ?r2] ?h)) = Dead"
    using fail_rounds_failed_then_dead[OF ch, of "[?r1, ?r2]"] by (simp add: mh)
  have e: "fst (fail_rounds [?r1, ?r2] sample_job) = []" by code_simp
  have eh: "fst (fail_rounds [?r1, ?r2] ?h) = [InvalidTimeValue]" by code_simp
  from sample_create one two e ch eh twoh show ?thesis by (intro conjI) simp_all
qed

subsection \<open>Queue: the index invariant\<close>

lemma set_set_add [simp]: "set (set_add x xs) = insert x (set xs)"
  by (auto simp: set_add_def)

lemma set_set_delete [simp]: "set (set_delete x xs) = set xs - {x}"
  by (auto simp: set_delete_def)

lemma requireJob_Inr [simp]: "requireJob q i = Inr job \<longleftrightarrow> jobs q i = Some job"
  by (simp add: requireJob_def split: option.splits)

lemma queue_inv_new: "queue_inv Queue_new"
  by (simp add: queue_inv_def Queue_new_def)

lemma queue_inv_job:
  assumes "queue_inv q" and "jobs q i = Some j"
  shows "job_id j = i"
    and "stateOf q i = Some (state j) \<or> (stateOf q i = Some Processing \<and> state j = Failed)"
proof -
  from assms(1) have "\<forall>i j. jobs q i = Some j \<longrightarrow> job_id j = i \<and>
        (stateOf q i = Some (state j) \<or> (stateOf q i = Some Processing \<and> state j = Failed))"
    unfolding queue_inv_def by (elim conjE)
  with assms(2) show "job_id j = i"
    and "stateOf q i = Some (state j) \<or> (stateOf q i = Some Processing \<and> state j = Failed)"
    by blast+
qed

lemma queue_inv_indexed:
  assumes "queue_inv q" and "jobs q i = Some j"
  shows "\<exists>c. stateOf q i = Some c"
  using queue_inv_job(2)[OF assms] by blast

lemma queue_inv_moveState:
  assumes inv: "queue_inv q" and old: "jobs q i = Some j"
    and id: "job_id j' = i" and st: "state j' = s"
  shows "queue_inv (moveState i s (q \<lparr> jobs := (jobs q)(i \<mapsto> j') \<rparr>))"
proof -
  from inv old obtain c where cur: "stateOf q i = Some c"
    by (auto simp: queue_inv_def)
  from inv have mem: "\<And>k t. k \<in> set (byState q t) \<longleftrightarrow> stateOf q k = Some t"
    by (simp add: queue_inv_def)
  show ?thesis
    using inv id st cur
    unfolding queue_inv_def moveState_def Let_def
    by (auto simp: mem)
qed

lemma queue_inv_left_failed:
  assumes inv: "queue_inv q" and old: "jobs q i = Some j"
    and idx: "stateOf q i = Some Processing"
    and id: "job_id j' = i" and st: "state j' = Failed"
  shows "queue_inv (q \<lparr> jobs := (jobs q)(i \<mapsto> j') \<rparr>)"
  using inv old idx id st unfolding queue_inv_def by auto

lemma queue_inv_enqueue:
  assumes "queue_inv q" and "enqueue job q = Inr q'"
  shows "queue_inv q'"
proof -
  from assms(2) have new: "jobs q (job_id job) = None" and pend: "state job = Pending"
    by (auto simp: enqueue_def split: if_splits)
  from assms(1) new have nost: "stateOf q (job_id job) = None"
    by (auto simp: queue_inv_def)
  from assms(1) have mem: "\<And>k t. k \<in> set (byState q t) \<longleftrightarrow> stateOf q k = Some t"
    by (simp add: queue_inv_def)
  from assms(1) have seq: "\<And>k n. insertionOrder q k = Some n \<Longrightarrow> 0 < n \<and> n \<le> insertSeq q"
    by (simp add: queue_inv_def)
  have q': "q' = q \<lparr> jobs := (jobs q)(job_id job \<mapsto> job),
                   stateOf := (stateOf q)(job_id job \<mapsto> state job),
                   byState := (byState q)(state job := set_add (job_id job) (byState q (state job))),
                   insertSeq := insertSeq q + 1,
                   insertionOrder := (insertionOrder q)(job_id job \<mapsto> insertSeq q + 1) \<rparr>"
    using assms(2) by (auto simp: enqueue_def split: if_splits)
  show ?thesis
    using assms(1) nost pend
    unfolding q' queue_inv_def
    by (auto simp: mem dest: seq)
qed

lemma queue_inv_updateJob:
  assumes inv: "queue_inv q" and "updateJob updated q = Inr q'"
  shows "queue_inv q'"
proof -
  from assms(2) obtain existing where ex: "jobs q (job_id updated) = Some existing"
    by (auto simp: updateJob_def split: sum.splits)
  from inv ex have eid: "job_id existing = job_id updated"
    by (auto simp: queue_inv_def)
  from queue_inv_indexed[OF inv ex] obtain c where cur: "stateOf q (job_id updated) = Some c"
    by (elim exE)
  from inv have mem: "\<And>k t. k \<in> set (byState q t) \<longleftrightarrow> stateOf q k = Some t"
    by (simp add: queue_inv_def)
  show ?thesis
  proof (cases "c = state updated")
    case True
    then have "q' = q \<lparr> jobs := (jobs q)(job_id updated \<mapsto> updated) \<rparr>"
      using assms(2) ex eid cur by (simp add: updateJob_def requireJob_def Let_def)
    then show ?thesis
      using inv cur True unfolding queue_inv_def by auto
  next
    case False
    then have "q' = q \<lparr> jobs := (jobs q)(job_id updated \<mapsto> updated),
        byState := ((byState q)(c := set_delete (job_id updated) (byState q c)))
                    (state updated := set_add (job_id updated)
                       (((byState q)(c := set_delete (job_id updated) (byState q c)))
                          (state updated))),
        stateOf := (stateOf q)(job_id updated \<mapsto> state updated) \<rparr>"
      using assms(2) ex eid cur by (simp add: updateJob_def requireJob_def Let_def)
    then show ?thesis
      using inv cur False unfolding queue_inv_def by (auto simp: mem)
  qed
qed

lemma queue_inv_complete:
  assumes "queue_inv q" and "complete i now q = Inr (r, q')"
  shows "queue_inv q'"
proof -
  from assms(2) obtain job job' where "jobs q i = Some job" "markCompleted now job = Inr job'"
    "q' = moveState i Completed (q \<lparr> jobs := (jobs q)(i \<mapsto> job') \<rparr>)"
    by (auto simp: complete_def split: sum.splits if_splits)
  moreover from this assms(1) have "job_id job' = i" "state job' = Completed"
    by (auto simp: markCompleted_def queue_inv_def split: if_splits)
  ultimately show ?thesis using queue_inv_moveState[OF assms(1)] by blast
qed

lemma fail_Inr:
  assumes "fail i err now q = Inr (r, q')"
  shows "\<exists>job. jobs q i = Some job \<and> stateOf q i = Some Processing
           \<and> markFailed err now job = Inr r
           \<and> q' = moveState i (if state r = Dead then Dead else Failed)
                     (q \<lparr> jobs := (jobs q)(i \<mapsto> r) \<rparr>)"
proof -
  from assms obtain job where j: "jobs q i = Some job"
    by (cases "jobs q i") (auto simp: fail_def requireJob_def)
  from assms j have p: "stateOf q i = Some Processing"
    by (auto simp: fail_def requireJob_def split: if_splits)
  from assms j p obtain job' where m: "markFailed err now job = Inr job'"
    by (cases "markFailed err now job") (auto simp: fail_def requireJob_def)
  from assms j p m show ?thesis
    by (auto simp: fail_def requireJob_def Let_def split: if_splits)
qed

lemma fail_Inl:
  assumes "fail i err now q = Inl (e, q')"
  shows "q' = q \<or>
         (\<exists>job job'. jobs q i = Some job \<and> stateOf q i = Some Processing
            \<and> markFailed err now job = Inl (e, job')
            \<and> q' = q \<lparr> jobs := (jobs q)(i \<mapsto> job') \<rparr>)"
proof (cases "jobs q i")
  case None
  then show ?thesis using assms by (simp add: fail_def requireJob_def)
next
  case (Some job)
  show ?thesis
  proof (cases "stateOf q i = Some Processing")
    case False
    then show ?thesis using assms Some by (simp add: fail_def requireJob_def)
  next
    case True
    show ?thesis
    proof (cases "markFailed err now job")
      case (Inl p)
      obtain e0 j0 where p: "p = (e0, j0)" by (cases p)
      from assms Some True Inl p have "e = e0" "q' = q \<lparr> jobs := (jobs q)(i \<mapsto> j0) \<rparr>"
        by (simp_all add: fail_def requireJob_def)
      with Some True Inl p show ?thesis by simp
    next
      case (Inr job')
      then show ?thesis using assms Some True
        by (simp add: fail_def requireJob_def Let_def split: if_splits)
    qed
  qed
qed

lemma queue_inv_fail:
  assumes "queue_inv q" and "fail i err now q = Inr (r, q')"
  shows "queue_inv q'"
proof -
  from fail_Inr[OF assms(2)] obtain job where j: "jobs q i = Some job"
    and m: "markFailed err now job = Inr r"
    and q': "q' = moveState i (if state r = Dead then Dead else Failed)
                     (q \<lparr> jobs := (jobs q)(i \<mapsto> r) \<rparr>)"
    by (elim exE conjE)
  from assms(1) j have "job_id job = i" by (simp add: queue_inv_def)
  with markFailed_Inr[OF m] have id: "job_id r = i"
    and st: "state r = (if state r = Dead then Dead else Failed)"
    by auto
  show ?thesis unfolding q' by (rule queue_inv_moveState[OF assms(1) j id st])
qed

lemma queue_inv_fail_throws:
  assumes "queue_inv q" and "fail i err now q = Inl (e, q')"
  shows "queue_inv q'"
  using fail_Inl[OF assms(2)]
proof (elim disjE exE conjE)
  assume "q' = q"
  then show ?thesis using assms(1) by simp
next
  fix job job'
  assume j: "jobs q i = Some job" and p: "stateOf q i = Some Processing"
    and m: "markFailed err now job = Inl (e, job')"
    and q': "q' = q \<lparr> jobs := (jobs q)(i \<mapsto> job') \<rparr>"
  from assms(1) j have ji: "job_id job = i" by (simp add: queue_inv_def)
  from markFailed_Inl[OF m] show ?thesis
  proof (elim disjE conjE)
    assume "job' = job"
    then have "q' = q" using q' j by (simp add: fun_upd_idem)
    then show ?thesis using assms(1) by simp
  next
    assume "job' = job \<lparr> attempts := attempts job + 1, updated_at := now,
                          last_error := Some (errMsg_of err), state := Failed \<rparr>"
    then have "job_id job' = i" "state job' = Failed" using ji by simp_all
    then show ?thesis unfolding q' using queue_inv_left_failed[OF assms(1) j p] by simp
  qed
qed

lemma queue_inv_requeue:
  assumes "queue_inv q" and "requeue i now q = Inr (r, q')"
  shows "queue_inv q'"
proof -
  from assms(2) obtain job where j: "jobs q i = Some job"
    "q' = moveState i Pending (q \<lparr> jobs := (jobs q)(i \<mapsto>
             job \<lparr> state := Pending, next_attempt_at := None, updated_at := now \<rparr>) \<rparr>)"
    by (auto simp: requeue_def Let_def split: sum.splits if_splits)
  moreover from j assms(1)
  have "job_id (job \<lparr> state := Pending, next_attempt_at := None, updated_at := now \<rparr>) = i"
    by (auto simp: queue_inv_def)
  ultimately show ?thesis using queue_inv_moveState[OF assms(1)] by simp
qed

lemma queue_inv_resetForRetry:
  assumes "queue_inv q" and "queue_resetForRetry i keep now q = Inr (r, q')"
  shows "queue_inv q'"
proof -
  from assms(2) obtain job job' where j: "jobs q i = Some job"
    "resetForRetry keep now job = Inr job'"
    "q' = moveState i Pending (q \<lparr> jobs := (jobs q)(i \<mapsto> job') \<rparr>)"
    by (auto simp: queue_resetForRetry_def split: sum.splits)
  moreover from j assms(1) have "job_id job' = i" "state job' = Pending"
    by (auto simp: resetForRetry_def queue_inv_def Let_def split: if_splits)
  ultimately show ?thesis using queue_inv_moveState[OF assms(1)] by blast
qed

subsection \<open>Queue: the scan of dequeue\<close>

lemma isDue_effectiveDueAt:
  "isDue job at \<Longrightarrow>
     effectiveDueAt now job =
       Some (if state job = Pending then nullish (run_at job) (created_at job)
             else nullish (next_attempt_at job) now)"
  by (simp add: isDue_def effectiveDueAt_def nullish_def split: if_splits option.splits)

lemma consider_id_not_due:
  "\<not> (\<exists>job. jobs q i = Some job \<and> isDue job at) \<Longrightarrow> consider_id q at now s i = s"
  by (cases "jobs q i") (simp_all add: consider_id_def)

lemma consider_id_due_None:
  "jobs q i = Some job \<Longrightarrow> isDue job at \<Longrightarrow>
     consider_id q at now None i = Some (i, due_key q now i)"
  by (simp add: consider_id_def isDue_effectiveDueAt due_key_def)

lemma consider_id_due_Some:
  "jobs q i = Some job \<Longrightarrow> isDue job at \<Longrightarrow>
     consider_id q at now (Some (si, sk)) i =
       (if key_less (due_key q now i) sk then Some (i, due_key q now i) else Some (si, sk))"
  by (cases sk) (auto simp: consider_id_def isDue_effectiveDueAt due_key_def key_less_def Let_def)

lemma key_less_irrefl: "\<not> key_less a a"
  by (simp add: key_less_def)

lemma key_le_trans: "\<not> key_less b a \<Longrightarrow> \<not> key_less c b \<Longrightarrow> \<not> key_less c a"
  unfolding key_less_def by linarith

lemma key_less_le_trans: "key_less a b \<Longrightarrow> \<not> key_less c b \<Longrightarrow> \<not> key_less c a"
  unfolding key_less_def by linarith

lemma key_less_total: "a \<noteq> b \<Longrightarrow> \<not> key_less b a \<Longrightarrow> key_less a b"
  unfolding key_less_def by (cases a; cases b) auto

lemma consider_id_due_cases:
  assumes "jobs q x = Some job" and "isDue job at"
  shows "consider_id q at now s x = Some (x, due_key q now x) \<and>
           (\<forall>p. s = Some p \<longrightarrow> key_less (due_key q now x) (snd p))
         \<or> consider_id q at now s x = s \<and>
           (\<exists>p. s = Some p \<and> \<not> key_less (due_key q now x) (snd p))"
proof (cases s)
  case None
  then show ?thesis using consider_id_due_None[OF assms] by simp
next
  case (Some p)
  obtain si sk where p: "p = (si, sk)" by (cases p)
  show ?thesis
    using consider_id_due_Some[OF assms, of now si sk] Some p by simp
qed

lemma foldl_consider_None:
  "foldl (consider_id q at now) s xs = None \<longleftrightarrow>
     s = None \<and> (\<forall>i \<in> set xs. \<not> (\<exists>job. jobs q i = Some job \<and> isDue job at))"
proof (induction xs arbitrary: s)
  case Nil
  then show ?case by simp
next
  case (Cons x xs)
  show ?case
  proof (cases "\<exists>job. jobs q x = Some job \<and> isDue job at")
    case False
    then show ?thesis by (simp add: Cons.IH consider_id_not_due)
  next
    case True
    then obtain job where j: "jobs q x = Some job" "isDue job at" by blast
    have "consider_id q at now s x \<noteq> None"
      using consider_id_due_cases[OF j, of now s] by auto
    then show ?thesis
      unfolding foldl_Cons Cons.IH using True by auto
  qed
qed

lemma foldl_consider_Some:
  assumes "foldl (consider_id q at now) s xs = Some r"
  shows "(s = Some r \<or> (fst r \<in> set xs \<and> (\<exists>job. jobs q (fst r) = Some job \<and> isDue job at)
            \<and> snd r = due_key q now (fst r)))
         \<and> (\<forall>c \<in> set xs. (\<exists>job. jobs q c = Some job \<and> isDue job at)
               \<longrightarrow> \<not> key_less (due_key q now c) (snd r))
         \<and> (\<forall>p. s = Some p \<longrightarrow> \<not> key_less (snd p) (snd r))"
  using assms
proof (induction xs arbitrary: s)
  case Nil
  then show ?case by (simp add: key_less_irrefl)
next
  case (Cons x xs)
  let ?s' = "consider_id q at now s x"
  from Cons.prems have f: "foldl (consider_id q at now) ?s' xs = Some r" by simp
  note ih = Cons.IH[OF f]
  show ?case
  proof (cases "\<exists>job. jobs q x = Some job \<and> isDue job at")
    case False
    then have "?s' = s" by (simp add: consider_id_not_due)
    with ih False show ?thesis by auto
  next
    case True
    then obtain job where j: "jobs q x = Some job" "isDue job at" by blast
    from consider_id_due_cases[OF j, of now s]
    show ?thesis
    proof (elim disjE conjE exE)
      assume s': "?s' = Some (x, due_key q now x)"
        and lt: "\<forall>p. s = Some p \<longrightarrow> key_less (due_key q now x) (snd p)"
      from ih s' have le: "\<not> key_less (due_key q now x) (snd r)"
        by (metis snd_conv)
      have a: "\<forall>p. s = Some p \<longrightarrow> \<not> key_less (snd p) (snd r)"
        using lt le key_less_le_trans by blast
      have b: "fst r \<in> set (x # xs) \<and> (\<exists>job. jobs q (fst r) = Some job \<and> isDue job at)
            \<and> snd r = due_key q now (fst r)"
        using ih s' j by auto
      have c: "\<forall>c \<in> set (x # xs). (\<exists>job. jobs q c = Some job \<and> isDue job at)
               \<longrightarrow> \<not> key_less (due_key q now c) (snd r)"
        using ih le by simp
      from a b c show ?thesis by blast
    next
      fix p
      assume s': "?s' = s" and sp: "s = Some p"
        and nlt: "\<not> key_less (due_key q now x) (snd p)"
      from ih s' sp have le: "\<not> key_less (snd p) (snd r)" by metis
      have xle: "\<not> key_less (due_key q now x) (snd r)"
        using key_le_trans[OF le nlt] .
      have a: "\<forall>p. s = Some p \<longrightarrow> \<not> key_less (snd p) (snd r)"
        using le sp by simp
      have b: "s = Some r \<or> (fst r \<in> set (x # xs) \<and> (\<exists>job. jobs q (fst r) = Some job \<and> isDue job at)
            \<and> snd r = due_key q now (fst r))"
        using ih s' by auto
      have c: "\<forall>c \<in> set (x # xs). (\<exists>job. jobs q c = Some job \<and> isDue job at)
               \<longrightarrow> \<not> key_less (due_key q now c) (snd r)"
        using ih xle by simp
      from a b c show ?thesis by blast
    qed
  qed
qed

lemma isDue_state: "isDue job at \<Longrightarrow> state job = Pending \<or> state job = Failed"
  by (simp add: isDue_def split: if_splits)

lemma candidate_iff:
  "candidate q at i \<longleftrightarrow>
     i \<in> set (byState q Pending @ byState q Failed) \<and> (\<exists>job. jobs q i = Some job \<and> isDue job at)"
  by (auto simp: candidate_def split: option.splits)

lemma due_key_inj:
  assumes inv: "queue_inv q"
    and c: "c \<in> set (byState q s)" and w: "w \<in> set (byState q t)"
    and eq: "due_key q now c = due_key q now w"
  shows "c = w"
proof -
  from inv c have sc: "stateOf q c = Some s" by (simp add: queue_inv_def)
  from inv w have sw: "stateOf q w = Some t" by (simp add: queue_inv_def)
  from inv sc obtain jc nc where jc: "jobs q c = Some jc" "insertionOrder q c = Some nc"
    unfolding queue_inv_def by (metis option.distinct(1) option.exhaust)
  from inv sw obtain jw nw where jw: "jobs q w = Some jw" "insertionOrder q w = Some nw"
    unfolding queue_inv_def by (metis option.distinct(1) option.exhaust)
  from eq jc jw have "nc = nw" by (simp add: due_key_def nullish_def)
  with inv jc jw show ?thesis unfolding queue_inv_def by blast
qed

lemma dequeue_none:
  assumes "\<forall>i. \<not> candidate q at i"
  shows "dequeue at now q = Inr (None, q)"
proof -
  have "foldl (consider_id q at now) None (byState q Pending @ byState q Failed) = None"
    using assms unfolding foldl_consider_None candidate_iff by blast
  then show ?thesis by (simp add: dequeue_def)
qed

lemma dequeue_some:
  assumes inv: "queue_inv q" and ex: "candidate q at c0"
  shows "\<exists>w job job'. candidate q at w \<and> jobs q w = Some job
           \<and> (\<forall>c. candidate q at c \<and> c \<noteq> w \<longrightarrow> key_less (due_key q now w) (due_key q now c))
           \<and> markProcessing now job = Inr job'
           \<and> dequeue at now q =
               Inr (Some job', moveState w Processing (q \<lparr> jobs := (jobs q)(w \<mapsto> job') \<rparr>))"
proof -
  let ?xs = "byState q Pending @ byState q Failed"
  let ?sel = "foldl (consider_id q at now) None ?xs"
  have "?sel \<noteq> None"
    using ex unfolding foldl_consider_None candidate_iff by blast
  then obtain r where r: "?sel = Some r" by blast
  obtain w k where wk: "r = (w, k)" by (cases r)
  from foldl_consider_Some[OF r] wk
  have w_in: "w \<in> set ?xs" and k: "k = due_key q now w"
    and min: "\<forall>c \<in> set ?xs. (\<exists>job. jobs q c = Some job \<and> isDue job at)
                \<longrightarrow> \<not> key_less (due_key q now c) k"
    and "\<exists>job. jobs q w = Some job \<and> isDue job at"
    by auto
  then obtain job where job: "jobs q w = Some job" "isDue job at" by blast
  have cw: "candidate q at w" using w_in job unfolding candidate_iff by blast
  have strict: "\<forall>c. candidate q at c \<and> c \<noteq> w \<longrightarrow> key_less (due_key q now w) (due_key q now c)"
  proof (intro allI impI, elim conjE)
    fix c assume c: "candidate q at c" and ne: "c \<noteq> w"
    from c have c_in: "c \<in> set ?xs" unfolding candidate_iff by blast
    from c min k have nl: "\<not> key_less (due_key q now c) (due_key q now w)"
      unfolding candidate_iff by blast
    have "due_key q now w \<noteq> due_key q now c"
    proof
      assume e: "due_key q now w = due_key q now c"
      from c_in w_in obtain s t where "c \<in> set (byState q s)" "w \<in> set (byState q t)" by auto
      from due_key_inj[OF inv this e[symmetric]] ne show False by simp
    qed
    then show "key_less (due_key q now w) (due_key q now c)"
      using key_less_total nl by blast
  qed
  let ?job' = "job \<lparr> state := Processing, updated_at := now \<rparr>"
  have mp: "markProcessing now job = Inr ?job'"
    using isDue_state[OF job(2)] by (auto simp: markProcessing_def)
  from inv job have id: "job_id job = w" by (simp add: queue_inv_def)
  have sel: "foldl (consider_id q at now) (foldl (consider_id q at now) None (byState q Pending))
               (byState q Failed) = Some (w, k)"
    using r wk by simp
  have "dequeue at now q =
          Inr (Some ?job', moveState w Processing (q \<lparr> jobs := (jobs q)(w \<mapsto> ?job') \<rparr>))"
    unfolding dequeue_def Let_def sel
    by (cases k) (simp add: requireJob_def job mp id)
  with cw job strict mp show ?thesis by blast
qed

lemma queue_inv_dequeue:
  assumes inv: "queue_inv q" and d: "dequeue at now q = Inr (r, q')"
  shows "queue_inv q'"
proof (cases "\<exists>c. candidate q at c")
  case False
  then show ?thesis using dequeue_none[of q at now] d inv by simp
next
  case True
  then obtain c0 where "candidate q at c0" by blast
  from dequeue_some[OF inv this, of now] d obtain w job job' where
    j: "jobs q w = Some job" "markProcessing now job = Inr job'"
       "q' = moveState w Processing (q \<lparr> jobs := (jobs q)(w \<mapsto> job') \<rparr>)"
    by auto
  from inv j have "job_id job' = w" "state job' = Processing"
    by (auto simp: queue_inv_def dest!: markProcessing_Inr)
  with j show ?thesis using queue_inv_moveState[OF inv] by blast
qed

lemma queue_inv_exec_op: "queue_inv q \<Longrightarrow> queue_inv (fst (exec_op op q))"
proof (cases op)
  case (Enqueue job)
  assume "queue_inv q"
  then show ?thesis using Enqueue queue_inv_enqueue[of q job]
    by (cases "enqueue job q") auto
next
  case (Dequeue at now)
  assume "queue_inv q"
  then show ?thesis using Dequeue queue_inv_dequeue[of q at now]
    by (cases "dequeue at now q") auto
next
  case (UpdateJob job)
  assume "queue_inv q"
  then show ?thesis using UpdateJob queue_inv_updateJob[of q job]
    by (cases "updateJob job q") auto
next
  case (Complete i now)
  assume "queue_inv q"
  then show ?thesis using Complete queue_inv_complete[of q i now]
    by (cases "complete i now q") auto
next
  case (Fail i err now)
  assume inv: "queue_inv q"
  show ?thesis
  proof (cases "fail i err now q")
    case (Inl p)
    obtain e q' where p: "p = (e, q')" by (cases p)
    from queue_inv_fail_throws[OF inv] Inl p show ?thesis using Fail by simp
  next
    case (Inr p)
    obtain r q' where p: "p = (r, q')" by (cases p)
    from queue_inv_fail[OF inv] Inr p show ?thesis using Fail by simp
  qed
next
  case (Requeue i now)
  assume "queue_inv q"
  then show ?thesis using Requeue queue_inv_requeue[of q i now]
    by (cases "requeue i now q") auto
next
  case (ResetForRetry i keep now)
  assume "queue_inv q"
  then show ?thesis using ResetForRetry queue_inv_resetForRetry[of q i keep now]
    by (cases "queue_resetForRetry i keep now q") auto
qed

lemma queue_inv_run: "queue_inv q \<Longrightarrow> queue_inv (run ops q)"
  by (induction ops arbitrary: q) (simp_all add: queue_inv_exec_op)

subsection \<open>Queue: the job that dequeue returns\<close>

lemma stateOf_moveState:
  "stateOf (moveState i s q) k = (if k = i then Some s else stateOf q k)"
  by (simp add: moveState_def Let_def)

lemma jobs_moveState: "jobs (moveState i s q) = jobs q"
  by (simp add: moveState_def Let_def)

text \<open>
  Claim C2. In every queue reached from the empty queue by method calls, and for every query
  time \<open>at\<close>: if no job of the \<open>pending\<close> and \<open>failed\<close> sets is due then \<open>dequeue\<close>
  returns no job and leaves the queue as it is. Otherwise it returns the one candidate whose
  pair of effective due time and insertion sequence number is strictly below that of every
  other candidate, as \<open>markProcessing\<close> leaves it: in state \<open>processing\<close>, with
  \<open>updated_at\<close> the clock reading and every other field as it was. In the queue after the
  call that job is stored under its id, indexed as \<open>processing\<close>, a member of the
  \<open>processing\<close> set and of neither the \<open>pending\<close> nor the \<open>failed\<close> set; every other
  job and its index entry are as before.
\<close>
theorem dequeue_selects_minimum:
  assumes "q = run ops Queue_new"
  shows "if \<forall>i. \<not> candidate q at i then dequeue at now q = Inr (None, q)
         else \<exists>w job job' q'. candidate q at w \<and> jobs q w = Some job
           \<and> (\<forall>c. candidate q at c \<and> c \<noteq> w \<longrightarrow> key_less (due_key q now w) (due_key q now c))
           \<and> markProcessing now job = Inr job'
           \<and> job' = job \<lparr> state := Processing, updated_at := now \<rparr>
           \<and> state job' = Processing \<and> job_id job' = w
           \<and> dequeue at now q = Inr (Some job', q')
           \<and> q' = moveState w Processing (q \<lparr> jobs := (jobs q)(w \<mapsto> job') \<rparr>)
           \<and> jobs q' w = Some job' \<and> stateOf q' w = Some Processing
           \<and> w \<in> set (byState q' Processing)
           \<and> w \<notin> set (byState q' Pending) \<and> w \<notin> set (byState q' Failed)
           \<and> (\<forall>k. k \<noteq> w \<longrightarrow> jobs q' k = jobs q k \<and> stateOf q' k = stateOf q k)"
proof -
  have inv: "queue_inv q" using assms queue_inv_run[OF queue_inv_new] by simp
  show ?thesis
  proof (cases "\<forall>i. \<not> candidate q at i")
    case True
    then show ?thesis using dequeue_none by simp
  next
    case False
    then obtain c0 where c0: "candidate q at c0" by blast
    from dequeue_some[OF inv c0, of now] obtain w job job' where
      cw: "candidate q at w" and jw: "jobs q w = Some job"
      and mn: "\<forall>c. candidate q at c \<and> c \<noteq> w \<longrightarrow> key_less (due_key q now w) (due_key q now c)"
      and mp: "markProcessing now job = Inr job'"
      and dq: "dequeue at now q =
                 Inr (Some job', moveState w Processing (q \<lparr> jobs := (jobs q)(w \<mapsto> job') \<rparr>))"
      by (elim exE conjE)
    define q' where "q' = moveState w Processing (q \<lparr> jobs := (jobs q)(w \<mapsto> job') \<rparr>)"
    from markProcessing_Inr[OF mp]
    have j': "job' = job \<lparr> state := Processing, updated_at := now \<rparr>" by simp
    then have st: "state job' = Processing" by simp
    from queue_inv_job(1)[OF inv jw] j' have id: "job_id job' = w" by simp
    have inv': "queue_inv q'"
      unfolding q'_def by (rule queue_inv_moveState[OF inv jw id st])
    have so: "stateOf q' w = Some Processing"
      by (simp add: q'_def stateOf_moveState)
    have jo: "jobs q' w = Some job'"
      by (simp add: q'_def jobs_moveState)
    from inv' have mem: "\<And>k t. k \<in> set (byState q' t) \<longleftrightarrow> stateOf q' k = Some t"
      by (simp add: queue_inv_def)
    have m1: "w \<in> set (byState q' Processing)" using so by (simp add: mem)
    have m2: "w \<notin> set (byState q' Pending)" using so by (simp add: mem)
    have m3: "w \<notin> set (byState q' Failed)" using so by (simp add: mem)
    have fr: "\<forall>k. k \<noteq> w \<longrightarrow> jobs q' k = jobs q k \<and> stateOf q' k = stateOf q k"
      by (simp add: q'_def jobs_moveState stateOf_moveState)
    have dq': "dequeue at now q = Inr (Some job', q')" using dq by (simp add: q'_def)
    have "\<exists>w job job' q'. candidate q at w \<and> jobs q w = Some job
           \<and> (\<forall>c. candidate q at c \<and> c \<noteq> w \<longrightarrow> key_less (due_key q now w) (due_key q now c))
           \<and> markProcessing now job = Inr job'
           \<and> job' = job \<lparr> state := Processing, updated_at := now \<rparr>
           \<and> state job' = Processing \<and> job_id job' = w
           \<and> dequeue at now q = Inr (Some job', q')
           \<and> q' = moveState w Processing (q \<lparr> jobs := (jobs q)(w \<mapsto> job') \<rparr>)
           \<and> jobs q' w = Some job' \<and> stateOf q' w = Some Processing
           \<and> w \<in> set (byState q' Processing)
           \<and> w \<notin> set (byState q' Pending) \<and> w \<notin> set (byState q' Failed)
           \<and> (\<forall>k. k \<noteq> w \<longrightarrow> jobs q' k = jobs q k \<and> stateOf q' k = stateOf q k)"
      apply (rule exI[of _ w])
      apply (rule exI[of _ job])
      apply (rule exI[of _ job'])
      apply (rule exI[of _ q'])
      apply (intro conjI)
                   apply (rule cw)
                  apply (rule jw)
                 apply (rule mn)
                apply (rule mp)
               apply (rule j')
              apply (rule st)
             apply (rule id)
            apply (rule dq')
           apply (rule q'_def)
          apply (rule jo)
         apply (rule so)
        apply (rule m1)
       apply (rule m2)
      apply (rule m3)
      apply (rule fr)
      done
    then show ?thesis unfolding if_not_P[OF False] .
  qed
qed

text \<open>
  Claim C2 at two queues. In the first, two jobs created at the same instant are both due and
  tie on the effective due time: the one enqueued first is returned, leaves the \<open>pending\<close>
  set, and the other stays as it was. In the second, a third job enqueued last but scheduled
  for an earlier instant is returned before both.
\<close>
theorem dequeue_selects_minimum_witness:
  "candidate (run [Enqueue sample_job, Enqueue sample_second] Queue_new) 2000 ''job-x''
   \<and> candidate (run [Enqueue sample_job, Enqueue sample_second] Queue_new) 2000 ''job-y''
   \<and> fst (due_key (run [Enqueue sample_job, Enqueue sample_second] Queue_new) 2000 ''job-x'')
       = fst (due_key (run [Enqueue sample_job, Enqueue sample_second] Queue_new) 2000 ''job-y'')
   \<and> key_less (due_key (run [Enqueue sample_job, Enqueue sample_second] Queue_new) 2000 ''job-x'')
        (due_key (run [Enqueue sample_job, Enqueue sample_second] Queue_new) 2000 ''job-y'')
   \<and> (\<exists>q'. dequeue 2000 2000 (run [Enqueue sample_job, Enqueue sample_second] Queue_new)
               = Inr (Some sample_leased, q')
          \<and> state sample_leased = Processing
          \<and> stateOf q' ''job-x'' = Some Processing
          \<and> ''job-x'' \<in> set (byState q' Processing)
          \<and> ''job-x'' \<notin> set (byState q' Pending)
          \<and> jobs q' ''job-y'' = Some sample_second)
   \<and> candidate (run [Enqueue sample_job, Enqueue sample_second, Enqueue sample_scheduled]
                   Queue_new) 2000 ''job-z''
   \<and> key_less
        (due_key (run [Enqueue sample_job, Enqueue sample_second, Enqueue sample_scheduled]
                    Queue_new) 2000 ''job-z'')
        (due_key (run [Enqueue sample_job, Enqueue sample_second, Enqueue sample_scheduled]
                    Queue_new) 2000 ''job-x'')
   \<and> (\<exists>q'. dequeue 2000 2000
               (run [Enqueue sample_job, Enqueue sample_second, Enqueue sample_scheduled]
                  Queue_new)
               = Inr (Some (sample_scheduled \<lparr> state := Processing, updated_at := 2000 \<rparr>), q')
          \<and> ''job-z'' \<notin> set (byState q' Pending))"
proof -
  let ?Q2 = "run [Enqueue sample_job, Enqueue sample_second] Queue_new"
  let ?Q3 = "run [Enqueue sample_job, Enqueue sample_second, Enqueue sample_scheduled] Queue_new"
  let ?z' = "sample_scheduled \<lparr> state := Processing, updated_at := 2000 \<rparr>"
  have cx: "candidate ?Q2 2000 ''job-x''" by code_simp
  have cy: "candidate ?Q2 2000 ''job-y''" by code_simp
  have tie: "fst (due_key ?Q2 2000 ''job-x'') = fst (due_key ?Q2 2000 ''job-y'')" by code_simp
  have r2: "map_sum id fst (dequeue 2000 2000 ?Q2) = Inr (Some sample_leased)" by code_simp
  have idx: "job_id sample_leased = ''job-x''" by code_simp
  have jy: "jobs ?Q2 ''job-y'' = Some sample_second" by code_simp
  have ne2: "\<not> (\<forall>i. \<not> candidate ?Q2 2000 i)" using cx by blast
  from dequeue_selects_minimum[OF refl, of "[Enqueue sample_job, Enqueue sample_second]" 2000 2000]
  obtain w job job' q' where
    mn: "\<forall>c. candidate ?Q2 2000 c \<and> c \<noteq> w
           \<longrightarrow> key_less (due_key ?Q2 2000 w) (due_key ?Q2 2000 c)"
    and st: "state job' = Processing" and id: "job_id job' = w"
    and dq: "dequeue 2000 2000 ?Q2 = Inr (Some job', q')"
    and so: "stateOf q' w = Some Processing"
    and m1: "w \<in> set (byState q' Processing)"
    and m2: "w \<notin> set (byState q' Pending)"
    and fr: "\<forall>k. k \<noteq> w \<longrightarrow> jobs q' k = jobs ?Q2 k \<and> stateOf q' k = stateOf ?Q2 k"
    unfolding if_not_P[OF ne2] by (elim exE conjE)
  from dq r2 have j': "job' = sample_leased" by simp
  with id idx have w: "w = ''job-x''" by simp
  from mn cy w have kl: "key_less (due_key ?Q2 2000 ''job-x'') (due_key ?Q2 2000 ''job-y'')"
    by simp
  from fr w jy have fy: "jobs q' ''job-y'' = Some sample_second" by simp
  have e2: "\<exists>q'. dequeue 2000 2000 ?Q2 = Inr (Some sample_leased, q')
          \<and> state sample_leased = Processing
          \<and> stateOf q' ''job-x'' = Some Processing
          \<and> ''job-x'' \<in> set (byState q' Processing)
          \<and> ''job-x'' \<notin> set (byState q' Pending)
          \<and> jobs q' ''job-y'' = Some sample_second"
    apply (rule exI[of _ q'])
    using dq st so m1 m2 fy j' w by simp
  have cz: "candidate ?Q3 2000 ''job-z''" by code_simp
  have cx3: "candidate ?Q3 2000 ''job-x''" by code_simp
  have r3: "map_sum id fst (dequeue 2000 2000 ?Q3) = Inr (Some ?z')" by code_simp
  have idz: "job_id ?z' = ''job-z''" by code_simp
  have ne3: "\<not> (\<forall>i. \<not> candidate ?Q3 2000 i)" using cz by blast
  from dequeue_selects_minimum[OF refl,
      of "[Enqueue sample_job, Enqueue sample_second, Enqueue sample_scheduled]" 2000 2000]
  obtain w3 job3 job3' q3' where
    mn3: "\<forall>c. candidate ?Q3 2000 c \<and> c \<noteq> w3
           \<longrightarrow> key_less (due_key ?Q3 2000 w3) (due_key ?Q3 2000 c)"
    and id3: "job_id job3' = w3"
    and dq3: "dequeue 2000 2000 ?Q3 = Inr (Some job3', q3')"
    and m23: "w3 \<notin> set (byState q3' Pending)"
    unfolding if_not_P[OF ne3] by (elim exE conjE)
  from dq3 r3 have j3: "job3' = ?z'" by simp
  with id3 idz have w3: "w3 = ''job-z''" by simp
  from mn3 cx3 w3 have kl3: "key_less (due_key ?Q3 2000 ''job-z'') (due_key ?Q3 2000 ''job-x'')"
    by simp
  have e3: "\<exists>q'. dequeue 2000 2000 ?Q3 = Inr (Some ?z', q')
          \<and> ''job-z'' \<notin> set (byState q' Pending)"
    apply (rule exI[of _ q3'])
    using dq3 m23 j3 w3 by simp
  from cx cy tie kl e2 cz kl3 e3 show ?thesis by (intro conjI)
qed

subsection \<open>Queue: a leased job is not handed out again\<close>

lemma dequeue_Some_props:
  assumes inv: "queue_inv q" and d: "dequeue at now q = Inr (Some j, q')"
  shows "\<exists>job. jobs q (job_id j) = Some job \<and> isDue job at
           \<and> j = job \<lparr> state := Processing, updated_at := now \<rparr>
           \<and> candidate q at (job_id j)
           \<and> q' = moveState (job_id j) Processing (q \<lparr> jobs := (jobs q)(job_id j \<mapsto> j) \<rparr>)"
proof (cases "\<exists>c. candidate q at c")
  case False
  then show ?thesis using dequeue_none[of q at now] d by simp
next
  case True
  then obtain c0 where "candidate q at c0" by blast
  from dequeue_some[OF inv this, of now] d obtain w job where
    w: "candidate q at w" "jobs q w = Some job" "markProcessing now job = Inr j"
       "q' = moveState w Processing (q \<lparr> jobs := (jobs q)(w \<mapsto> j) \<rparr>)"
    by auto
  from markProcessing_Inr[OF w(3)] have j: "j = job \<lparr> state := Processing, updated_at := now \<rparr>"
    by simp
  from inv w(2) have "job_id job = w" by (simp add: queue_inv_def)
  with j have id: "job_id j = w" by simp
  from w(1,2) have "isDue job at" by (simp add: candidate_def)
  with w j id show ?thesis by simp
qed

lemma dequeue_None_same: "dequeue at now q = Inr (None, q') \<Longrightarrow> q' = q"
  by (auto simp: dequeue_def Let_def split: option.splits sum.splits prod.splits)

lemma candidate_state:
  assumes "queue_inv q" and "candidate q at i"
  shows "stateOf q i = Some Pending \<or> stateOf q i = Some Failed"
  using assms by (auto simp: candidate_def queue_inv_def)

lemma leased_job:
  assumes "leased q i"
  shows "stateOf q i = Some Processing \<and> (\<exists>j. jobs q i = Some j \<and> state j = Processing)"
  using assms by (cases "jobs q i") (simp_all add: leased_def)

lemma leased_moveState:
  "k \<noteq> i \<Longrightarrow> leased (moveState k s q) i = leased q i"
  by (simp add: leased_def stateOf_moveState jobs_moveState)

lemma leased_jobs_upd:
  "k \<noteq> i \<Longrightarrow> leased (q \<lparr> jobs := (jobs q)(k \<mapsto> j) \<rparr>) i = leased q i"
  by (simp add: leased_def)

lemma leased_after_dequeue:
  assumes "state j = Processing"
  shows "leased (moveState i Processing (q \<lparr> jobs := (jobs q)(i \<mapsto> j) \<rparr>)) i"
  using assms by (simp add: leased_def stateOf_moveState jobs_moveState)

lemma exec_op_keeps_lease:
  assumes inv: "queue_inv q" and p: "leased q i" and nt: "\<not> touches i op"
  shows "leased (fst (exec_op op q)) i
         \<and> (\<forall>j. snd (exec_op op q) = Some j \<longrightarrow> job_id j \<noteq> i)"
proof (cases op)
  case (Enqueue job)
  from leased_job[OF p] have "jobs q i \<noteq> None" by auto
  then have "jobs q (job_id job) = None \<Longrightarrow> job_id job \<noteq> i" by auto
  then show ?thesis using Enqueue p
    by (auto simp: enqueue_def leased_def split: if_splits)
next
  case (Dequeue at now)
  show ?thesis
  proof (cases "dequeue at now q")
    case (Inl e)
    then show ?thesis using Dequeue p by simp
  next
    case (Inr res)
    obtain r q' where res: "res = (r, q')" by (cases res)
    show ?thesis
    proof (cases r)
      case None
      then have "q' = q"
        using Inr res dequeue_None_same by simp
      then show ?thesis using Dequeue Inr res None p by simp
    next
      case (Some j)
      from dequeue_Some_props[OF inv] Inr res Some obtain job where
        c: "candidate q at (job_id j)"
        and q': "q' = moveState (job_id j) Processing (q \<lparr> jobs := (jobs q)(job_id j \<mapsto> j) \<rparr>)"
        by blast
      from candidate_state[OF inv c] leased_job[OF p] have ne: "job_id j \<noteq> i" by auto
      then show ?thesis using Dequeue Inr res Some p q'
        by (simp add: leased_moveState leased_jobs_upd)
    qed
  qed
next
  case (UpdateJob job)
  with nt have ne: "job_id job \<noteq> i" by simp
  show ?thesis
  proof (cases "updateJob job q")
    case (Inl e)
    then show ?thesis using UpdateJob p by simp
  next
    case (Inr q')
    then have "jobs q' i = jobs q i \<and> stateOf q' i = stateOf q i"
      using ne
      by (auto simp: updateJob_def Let_def moveState_def split: sum.splits if_splits option.splits)
    then show ?thesis using UpdateJob Inr p by (simp add: leased_def)
  qed
next
  case (Complete k now)
  with nt have ne: "k \<noteq> i" by simp
  show ?thesis using Complete p ne
    by (auto simp: complete_def leased_moveState leased_jobs_upd split: sum.splits if_splits)
next
  case (Fail k err now)
  with nt have ne: "k \<noteq> i" by simp
  show ?thesis
  proof (cases "fail k err now q")
    case (Inl r)
    obtain e q' where r: "r = (e, q')" by (cases r)
    from fail_Inl[of k err now q e q'] Inl r
    have "q' = q \<or> (\<exists>job'. q' = q \<lparr> jobs := (jobs q)(k \<mapsto> job') \<rparr>)" by blast
    then show ?thesis using Fail Inl r p ne by (auto simp: leased_jobs_upd)
  next
    case (Inr r)
    obtain j q' where r: "r = (j, q')" by (cases r)
    from fail_Inr[of k err now q j q'] Inr r
    have "\<exists>s. q' = moveState k s (q \<lparr> jobs := (jobs q)(k \<mapsto> j) \<rparr>)" by blast
    then show ?thesis using Fail Inr r p ne by (auto simp: leased_moveState leased_jobs_upd)
  qed
next
  case (Requeue k now)
  with nt have ne: "k \<noteq> i" by simp
  show ?thesis using Requeue p ne
    by (auto simp: requeue_def Let_def leased_moveState leased_jobs_upd
        split: sum.splits if_splits)
next
  case (ResetForRetry k keep now)
  show ?thesis
  proof (cases "k = i")
    case True
    from leased_job[OF p] obtain job where job: "jobs q i = Some job"
      and "state job = Processing"
      by auto
    then have "resetForRetry keep now job = Inl (CannotResetForRetry Processing)"
      by (simp add: resetForRetry_def)
    then show ?thesis using ResetForRetry True job p
      by (simp add: queue_resetForRetry_def requireJob_def)
  next
    case False
    then show ?thesis using ResetForRetry p
      by (auto simp: queue_resetForRetry_def leased_moveState leased_jobs_upd
          split: sum.splits)
  qed
qed

lemma no_second_dequeue:
  assumes "queue_inv q" and "leased q i"
    and "\<forall>op \<in> set ops. \<not> touches i op"
  shows "i \<notin> set (dequeued ops q)"
  using assms
proof (induction ops arbitrary: q)
  case Nil
  then show ?case by simp
next
  case (Cons op ops)
  from Cons.prems have nt: "\<not> touches i op" by simp
  note k = exec_op_keeps_lease[OF Cons.prems(1,2) nt]
  have "i \<notin> set (dequeued ops (fst (exec_op op q)))"
    using Cons.IH[OF queue_inv_exec_op[OF Cons.prems(1)]] k Cons.prems(3) by simp
  then show ?case using k by (auto split: option.splits)
qed

text \<open>
  Claim C6, as amended. After \<open>dequeue\<close> has returned a job, no later \<open>dequeue\<close> returns it
  again unless a \<open>complete\<close>, \<open>fail\<close>, \<open>requeue\<close> or \<open>updateJob\<close> on that job comes in
  between; and the job returned by \<open>dequeue(at)\<close> was due at \<open>at\<close>: pending with \<open>run_at\<close>
  unset or at most \<open>at\<close>, or failed and retryable with \<open>next_attempt_at\<close> unset or at most
  \<open>at\<close>.
\<close>
theorem dequeue_exclusive_and_due:
  assumes "q = run ops1 Queue_new"
    and "dequeue at now q = Inr (Some j, q1)"
    and "\<forall>op \<in> set ops2. \<not> touches (job_id j) op"
  shows "job_id j \<notin> set (dequeued ops2 q1)
         \<and> (\<exists>job. jobs q (job_id j) = Some job \<and> isDue job at
              \<and> (state job = Pending \<longrightarrow> (\<forall>r. run_at job = Some r \<longrightarrow> r \<le> at))
              \<and> (state job = Failed \<longrightarrow> (\<forall>n. next_attempt_at job = Some n \<longrightarrow> n \<le> at)))"
proof -
  have inv: "queue_inv q" using assms(1) queue_inv_run[OF queue_inv_new] by simp
  have inv1: "queue_inv q1" using queue_inv_dequeue[OF inv assms(2)] .
  from dequeue_Some_props[OF inv assms(2)] obtain job where
    job: "jobs q (job_id j) = Some job" "isDue job at"
    and j: "j = job \<lparr> state := Processing, updated_at := now \<rparr>"
    and q1: "q1 = moveState (job_id j) Processing (q \<lparr> jobs := (jobs q)(job_id j \<mapsto> j) \<rparr>)"
    by blast
  from j have "state j = Processing" by simp
  from leased_after_dequeue[OF this] have "leased q1 (job_id j)"
    unfolding q1 .
  from no_second_dequeue[OF inv1 this assms(3)]
  have a: "job_id j \<notin> set (dequeued ops2 q1)" .
  have b: "state job = Pending \<longrightarrow> (\<forall>r. run_at job = Some r \<longrightarrow> r \<le> at)"
    using job(2) by (auto simp: isDue_def)
  have c: "state job = Failed \<longrightarrow> (\<forall>n. next_attempt_at job = Some n \<longrightarrow> n \<le> at)"
    using job(2) by (auto simp: isDue_def split: if_splits)
  from a b c job show ?thesis by blast
qed

text \<open>
  Claim C6, as amended, at the queue that holds the sample job: once leased, it is not
  returned by two further \<open>dequeue\<close> calls, nor after a \<open>resetForRetry\<close>, which throws.
\<close>
theorem dequeue_exclusive_and_due_witness:
  "\<exists>q1. dequeue 2000 2000 (run [Enqueue sample_job] Queue_new) = Inr (Some sample_leased, q1)
        \<and> job_id sample_leased \<notin>
            set (dequeued [Dequeue 3000 3000, ResetForRetry ''job-x'' False 3500,
                           Dequeue 4000 4000] q1)"
proof -
  have a: "map_sum id fst (dequeue 2000 2000 (run [Enqueue sample_job] Queue_new))
             = Inr (Some sample_leased)"
    by code_simp
  then obtain q1 where
    d: "dequeue 2000 2000 (run [Enqueue sample_job] Queue_new) = Inr (Some sample_leased, q1)"
    by (cases "dequeue 2000 2000 (run [Enqueue sample_job] Queue_new)") auto
  have id: "job_id sample_leased = ''job-x''" by code_simp
  have nt: "\<forall>op \<in> set [Dequeue 3000 3000, ResetForRetry ''job-x'' False 3500, Dequeue 4000 4000].
              \<not> touches (job_id sample_leased) op"
    by simp
  from dequeue_exclusive_and_due[OF refl d nt] d show ?thesis by blast
qed

text \<open>
  Claim C6 as stated fails twice. A pending job without \<open>run_at\<close>, created at instant 1000,
  is returned by \<open>dequeue\<close> at query time 500, before its effective due time. And a job
  is returned by two \<open>dequeue\<close> calls with only an \<open>updateJob\<close> between them.
\<close>
theorem dequeue_exclusive_counterexample:
  "dequeued [Enqueue sample_job, Dequeue 500 2000] Queue_new = [''job-x'']
   \<and> effectiveDueAt 2000 sample_job = Some 1000 \<and> (500::int) < 1000
   \<and> dequeued [Enqueue sample_job, Dequeue 2000 2000, UpdateJob sample_job, Dequeue 3000 3000]
        Queue_new = [''job-x'', ''job-x'']"
  by code_simp

subsection \<open>Leasing and \<open>next_attempt_at\<close>\<close>

lemma fromJSON_fields:
  "fromJSON x = Inr j \<Longrightarrow>
     state j = state x \<and> next_attempt_at j = next_attempt_at x \<and> job_id j = job_id x"
  by (auto simp: fromJSON_def toISO_ident Let_def split: sum.splits)

lemma find_map_unique:
  assumes d: "distinct (map job_id rows)"
    and r: "r \<in> set rows" and i: "job_id r = i"
    and f: "\<And>x. job_id (f x) = job_id x"
  shows "find (\<lambda>x. job_id x = i) (map f rows) = Some (f r)"
  using d r i
proof (induction rows)
  case Nil
  then show ?case by simp
next
  case (Cons a rows)
  show ?case
  proof (cases "a = r")
    case True
    then show ?thesis using Cons.prems f by simp
  next
    case False
    with Cons.prems have rin: "r \<in> set rows" by simp
    then have "job_id r \<in> set (map job_id rows)" by simp
    with Cons.prems have "job_id a \<noteq> i" by auto
    then show ?thesis using Cons.IH rin Cons.prems f by simp
  qed
qed

lemma updateStmt_ids:
  "map job_id (jobs_table (fst (updateStmt now i db))) = map job_id (jobs_table db)"
  by (simp add: updateStmt_def comp_def cong: map_cong)

lemma json_leaseNext_state:
  assumes "json_leaseNext at now st = Inr (Some j', st')"
  shows "state j' = Processing"
proof -
  from assms obtain idx where
    "fromJSON ((jobs_json st ! idx) \<lparr> state := Processing, updated_at := now \<rparr>) = Inr j'"
    unfolding json_leaseNext_def Let_def
    by (auto split: sum.splits list.splits option.splits)
  from fromJSON_fields[OF this] show ?thesis by simp
qed

lemma lease_tx_state:
  assumes "distinct (map job_id (jobs_table db))"
    and "lease_tx n t db = (Some row, db')"
  shows "state row = Processing"
  using assms
proof (induction n arbitrary: db)
  case 0
  then show ?case by simp
next
  case (Suc n)
  from Suc.prems(2) obtain i where sel: "selectStmt t db = Some i"
    by (cases "selectStmt t db") auto
  let ?f = "\<lambda>r. if job_id r = i \<and> sqlite_due t r
                 then r \<lparr> state := Processing, updated_at := t \<rparr> else r"
  let ?db1 = "fst (updateStmt t i db)"
  let ?changes = "snd (updateStmt t i db)"
  have step: "lease_tx (Suc n) t db =
                (if ?changes = 1 then (getStmt i ?db1, ?db1) else lease_tx n t ?db1)"
    using sel by (simp add: case_prod_beta)
  show ?case
  proof (cases "?changes = 1")
    case True
    then have "length (filter (\<lambda>r. job_id r = i \<and> sqlite_due t r) (jobs_table db)) = 1"
      by (simp add: updateStmt_def)
    then have "filter (\<lambda>r. job_id r = i \<and> sqlite_due t r) (jobs_table db) \<noteq> []"
      by auto
    then obtain r where r: "r \<in> set (jobs_table db)" "job_id r = i" "sqlite_due t r"
      unfolding filter_empty_conv by blast
    have fid: "\<And>x. job_id (?f x) = job_id x" by simp
    have "find (\<lambda>x. job_id x = i) (map ?f (jobs_table db)) = Some (?f r)"
      by (rule find_map_unique[OF Suc.prems(1) r(1,2)]) simp
    then have "getStmt i ?db1 = Some (?f r)"
      by (simp add: getStmt_def updateStmt_def)
    with step True Suc.prems(2) have "row = ?f r" by simp
    then show ?thesis using r by simp
  next
    case False
    with step have "lease_tx (Suc n) t db = lease_tx n t ?db1" by simp
    moreover have "distinct (map job_id (jobs_table ?db1))"
      using Suc.prems(1) by (simp only: updateStmt_ids)
    ultimately show ?thesis using Suc.IH Suc.prems(2) by simp
  qed
qed

lemma sqlite_leaseNext_state:
  assumes "distinct (map job_id (jobs_table db))"
    and "sqlite_leaseNext at db = (Inr (Some j'), db')"
  shows "state j' = Processing"
proof -
  obtain r0 d0 where l: "lease_tx 5 at db = (r0, d0)" by (cases "lease_tx 5 at db")
  from assms(2) l obtain row where r0: "r0 = Some row"
    by (cases r0) (auto simp: sqlite_leaseNext_def)
  from assms(2) l r0 have "fromJSON (rowToJSON row) = Inr j'"
    by (cases "fromJSON (rowToJSON row)") (auto simp: sqlite_leaseNext_def)
  from fromJSON_fields[OF this] have "state j' = state row" by (simp add: rowToJSON_def)
  then show ?thesis
    using lease_tx_state[OF assms(1)] l r0 by simp
qed

lemma create_fresh: "create init uuid now = Inr j \<Longrightarrow> state j = Pending \<and> next_attempt_at j = None"
  by (auto simp: create_def Let_def split: sum.splits)

lemma markCompleted_clears: "markCompleted now j = Inr j' \<Longrightarrow> state j' = Completed \<and> next_attempt_at j' = None"
  by (auto simp: markCompleted_def split: if_splits)

lemma markFailed_result:
  "markFailed err now j = Inr j' \<Longrightarrow>
     (state j' = Dead \<and> next_attempt_at j' = None) \<or> (state j' = Failed \<and> next_attempt_at j' \<noteq> None)"
  using markFailed_Inr[of err now j j'] by auto

lemma resetForRetry_clears:
  "resetForRetry keep now j = Inr j' \<Longrightarrow> state j' = Pending \<and> next_attempt_at j' = None"
  by (auto simp: resetForRetry_def Let_def split: if_splits)

text \<open>
  Claim C1, as amended. For every job reachable from \<open>create\<close> by the transition methods
  and by the leasing of either backend, \<open>next_attempt_at\<close> is set only in state \<open>failed\<close>
  or \<open>processing\<close>; a job in state \<open>pending\<close>, \<open>completed\<close> or \<open>dead\<close> has none.
\<close>
theorem next_attempt_at_only_failed_or_processing:
  assumes "lifecycle j"
  shows "(next_attempt_at j \<noteq> None \<longrightarrow> state j = Failed \<or> state j = Processing)
         \<and> (state j = Pending \<or> state j = Completed \<or> state j = Dead
              \<longrightarrow> next_attempt_at j = None)"
proof -
  have "state j = Processing \<or> state j = Failed \<or> next_attempt_at j = None"
    using assms
  proof (induction rule: lifecycle.induct)
    case (l_create init uuid now j)
    from create_fresh[OF l_create.hyps] show ?case by simp
  next
    case (l_markProcessing j now j')
    from markProcessing_Inr[OF l_markProcessing.hyps(2)] show ?case by simp
  next
    case (l_markCompleted j now j')
    from markCompleted_clears[OF l_markCompleted.hyps(2)] show ?case by simp
  next
    case (l_markFailed j err now j')
    from markFailed_result[OF l_markFailed.hyps(2)] show ?case by auto
  next
    case (l_markFailed_throws j err now e j')
    from markFailed_Inl[OF l_markFailed_throws.hyps(2)] l_markFailed_throws.IH
    show ?case by auto
  next
    case (l_resetForRetry j keep now j')
    from resetForRetry_clears[OF l_resetForRetry.hyps(2)] show ?case by simp
  next
    case (l_json_lease st at now j' st')
    from json_leaseNext_state[OF l_json_lease.hyps] show ?case by simp
  next
    case (l_sqlite_lease db at j' db')
    from sqlite_leaseNext_state[OF l_sqlite_lease.hyps] show ?case by simp
  qed
  then show ?thesis by (cases "state j") auto
qed

lemma lifecycle_sample_released: "lifecycle sample_released"
  by (rule l_markProcessing[OF _ sample_release], rule l_markFailed[OF _ sample_fail],
      rule l_markProcessing[OF _ sample_lease], rule l_create[OF sample_create])

text \<open>
  Claim C1 as stated fails: the sample job, leased, failed once and leased again for its
  retry, is \<open>processing\<close> and still carries the \<open>next_attempt_at\<close> of its failure.
\<close>
theorem next_attempt_at_counterexample:
  "lifecycle sample_released \<and> state sample_released = Processing
   \<and> next_attempt_at sample_released = Some 5000"
proof -
  have "state sample_released = Processing \<and> next_attempt_at sample_released = Some 5000"
    by code_simp
  then show ?thesis using lifecycle_sample_released by simp
qed

text \<open>Claim C1, as amended, at the re-leased sample job.\<close>
theorem next_attempt_at_witness:
  "lifecycle sample_released \<and> next_attempt_at sample_released \<noteq> None
   \<and> (state sample_released = Failed \<or> state sample_released = Processing)"
  using next_attempt_at_only_failed_or_processing[OF lifecycle_sample_released]
    lifecycle_sample_released
  by (simp add: sample_released_def sample_failed_def)

subsection \<open>The end-to-end scenario\<close>

text \<open>
  Claim C5, evaluated on the flat-file backend. The sample job is enqueued, leased and
  failed once: it is \<open>failed\<close> with \<open>attempts = 1\<close> and \<open>next_attempt_at\<close> two seconds
  after the failure. The second \<open>leaseNext\<close>, at an instant after \<open>next_attempt_at\<close>,
  returns no job, because \<open>isDue\<close> asks for \<open>attempts < max_retries\<close>; the relational
  backend, whose \<open>WHERE\<close> clause has no such condition, leases the same record.
\<close>
theorem json_second_lease_misses_job:
  "create sample_init ''uuid'' 1000 = Inr sample_job
   \<and> json_enqueue sample_job \<lparr> jobs_json = [], dlq_json = [] \<rparr>
       = Inr \<lparr> jobs_json = [sample_job], dlq_json = [] \<rparr>
   \<and> json_leaseNext 2000 2000 \<lparr> jobs_json = [sample_job], dlq_json = [] \<rparr>
       = Inr (Some sample_leased, \<lparr> jobs_json = [sample_leased], dlq_json = [] \<rparr>)
   \<and> markFailed (ErrorObject ''first fail'') 3000 sample_leased = Inr sample_failed
   \<and> state sample_failed = Failed \<and> attempts sample_failed = 1
   \<and> next_attempt_at sample_failed = Some (3000 + 2 * 1000)
   \<and> json_update sample_failed \<lparr> jobs_json = [sample_leased], dlq_json = [] \<rparr>
       = Inr \<lparr> jobs_json = [sample_failed], dlq_json = [] \<rparr>
   \<and> json_leaseNext 6000 6000 \<lparr> jobs_json = [sample_failed], dlq_json = [] \<rparr>
       = Inr (None, \<lparr> jobs_json = [sample_failed], dlq_json = [] \<rparr>)
   \<and> isDue sample_failed 6000 = False
   \<and> sqlite_leaseNext 6000 \<lparr> jobs_table = [sample_failed], dlq_table = [] \<rparr>
       = (Inr (Some sample_released), \<lparr> jobs_table = [sample_released], dlq_table = [] \<rparr>)"
  by code_simp

subsection \<open>The dead-letter queue\<close>

text \<open>
  On the relational backend the scenario runs to its end: the retry is leased, fails into
  \<open>dead\<close> with two attempts, is moved to the DLQ (one entry), revived as \<open>pending\<close> with no
  attempts, leased and completed, and the DLQ is empty.
\<close>

lemma sqlite_end_to_end:
  "markFailed (StringValue ''second fail'') 7000 sample_released = Inr sample_dead
   \<and> sqlite_moveToDLQ sample_dead 8000 \<lparr> jobs_table = [sample_released], dlq_table = [] \<rparr>
       = Inr \<lparr> jobs_table = [],
               dlq_table = [\<lparr> dlq_id = ''job-x'', payload = Some sample_dead, dead_at = 8000 \<rparr>] \<rparr>
   \<and> sqlite_listDLQ
        \<lparr> jobs_table = [],
          dlq_table = [\<lparr> dlq_id = ''job-x'', payload = Some sample_dead, dead_at = 8000 \<rparr>] \<rparr>
       = [sample_dead]
   \<and> sqlite_retryFromDLQ ''job-x'' 9000
        \<lparr> jobs_table = [],
          dlq_table = [\<lparr> dlq_id = ''job-x'', payload = Some sample_dead, dead_at = 8000 \<rparr>] \<rparr>
       = Inr (Some (sample_job \<lparr> updated_at := 9000 \<rparr>),
              \<lparr> jobs_table = [sample_job \<lparr> updated_at := 9000 \<rparr>], dlq_table = [] \<rparr>)
   \<and> sqlite_leaseNext 10000 \<lparr> jobs_table = [sample_job \<lparr> updated_at := 9000 \<rparr>], dlq_table = [] \<rparr>
       = (Inr (Some (sample_job \<lparr> state := Processing, updated_at := 10000 \<rparr>)),
          \<lparr> jobs_table = [sample_job \<lparr> state := Processing, updated_at := 10000 \<rparr>],
            dlq_table = [] \<rparr>)
   \<and> markCompleted 11000 (sample_job \<lparr> state := Processing, updated_at := 10000 \<rparr>)
       = Inr (sample_job \<lparr> state := Completed, updated_at := 11000 \<rparr>)
   \<and> sqlite_listDLQ
        (sqlite_update (sample_job \<lparr> state := Completed, updated_at := 11000 \<rparr>)
           \<lparr> jobs_table = [sample_job \<lparr> state := Processing, updated_at := 10000 \<rparr>],
             dlq_table = [] \<rparr>) = []"
  by code_simp

text \<open>
  Claim C9, evaluated on the relational backend. The dead sample job is moved to the DLQ, a
  job with the same id is enqueued, and \<open>retryFromDLQ\<close> is called: its \<open>INSERT\<close> violates
  the primary key of \<open>jobs\<close>, so it throws and the transaction is rolled back. The
  flat-file backend, from the same collections, replaces the job and returns the revived
  one.
\<close>
theorem sqlite_retryFromDLQ_rejects_collision:
  "sqlite_moveToDLQ sample_dead 8000 \<lparr> jobs_table = [sample_released], dlq_table = [] \<rparr>
     = Inr \<lparr> jobs_table = [],
             dlq_table = [\<lparr> dlq_id = ''job-x'', payload = Some sample_dead, dead_at = 8000 \<rparr>] \<rparr>
   \<and> sqlite_enqueue sample_job
       \<lparr> jobs_table = [],
         dlq_table = [\<lparr> dlq_id = ''job-x'', payload = Some sample_dead, dead_at = 8000 \<rparr>] \<rparr>
     = Inr \<lparr> jobs_table = [sample_job],
             dlq_table = [\<lparr> dlq_id = ''job-x'', payload = Some sample_dead, dead_at = 8000 \<rparr>] \<rparr>
   \<and> sqlite_retryFromDLQ ''job-x'' 9000
       \<lparr> jobs_table = [sample_job],
         dlq_table = [\<lparr> dlq_id = ''job-x'', payload = Some sample_dead, dead_at = 8000 \<rparr>] \<rparr>
     = Inl SqliteConstraintPrimaryKey
   \<and> json_retryFromDLQ ''job-x'' 9000 \<lparr> jobs_json = [sample_job], dlq_json = [sample_dead] \<rparr>
     = Inr (Some (sample_job \<lparr> updated_at := 9000 \<rparr>),
            \<lparr> jobs_json = [sample_job \<lparr> updated_at := 9000 \<rparr>], dlq_json = [] \<rparr>)"
  by code_simp

lemma json_moveToDLQ_appends:
  "\<exists>st1. json_moveToDLQ job st = Inr st1 \<and> dlq_json st1 = dlq_json st @ [toJSON job]
         \<and> (findIndex (\<lambda>j. job_id j = job_id job) (jobs_json st) = None
              \<longrightarrow> jobs_json st1 = jobs_json st)"
  by (simp add: json_moveToDLQ_def Let_def)

lemma sqlite_moveToDLQ_Inr:
  assumes "sqlite_moveToDLQ job now db = Inr db1"
  shows "list_ex (\<lambda>d. dlq_id d = job_id job) (dlq_table db1)"
proof -
  from assms have "db1 = db \<lparr> jobs_table := filter (\<lambda>r. job_id r \<noteq> job_id job) (jobs_table db),
                        dlq_table := dlq_table db @
                          [\<lparr> dlq_id = job_id job, payload = Some job, dead_at = now \<rparr>] \<rparr>"
    by (simp add: sqlite_moveToDLQ_def Let_def toJSON_ident split: if_splits)
  then show ?thesis by (simp add: list_ex_iff)
qed

lemma sqlite_moveToDLQ_again:
  assumes "list_ex (\<lambda>d. dlq_id d = job_id job) (dlq_table db1)"
  shows "sqlite_moveToDLQ job now' db1 = Inl SqliteConstraintPrimaryKey"
  using assms by (simp add: sqlite_moveToDLQ_def toJSON_ident)

text \<open>
  Claim C10. \<open>JsonStorage.moveToDLQ\<close> never throws: it appends the snapshot to the DLQ
  whether or not the id is in the jobs collection (which it then leaves as it is), and a
  second call for the same job appends a second entry with the same id. A second
  \<open>SqliteStorage.moveToDLQ\<close> of a job violates the primary key of \<open>dlq\<close>.
\<close>
theorem moveToDLQ_json_duplicates_sqlite_rejects:
  "\<exists>st1 st2. json_moveToDLQ job st = Inr st1
       \<and> dlq_json st1 = dlq_json st @ [toJSON job]
       \<and> (findIndex (\<lambda>j. job_id j = job_id job) (jobs_json st) = None
            \<longrightarrow> jobs_json st1 = jobs_json st)
       \<and> json_moveToDLQ job st1 = Inr st2
       \<and> dlq_json st2 = dlq_json st @ [toJSON job, toJSON job]
       \<and> (\<forall>db1. sqlite_moveToDLQ job now db = Inr db1
              \<longrightarrow> sqlite_moveToDLQ job now' db1 = Inl SqliteConstraintPrimaryKey)"
proof -
  from json_moveToDLQ_appends[of job st] obtain st1 where
    a1: "json_moveToDLQ job st = Inr st1" and a2: "dlq_json st1 = dlq_json st @ [toJSON job]"
    and a3: "findIndex (\<lambda>j. job_id j = job_id job) (jobs_json st) = None
          \<longrightarrow> jobs_json st1 = jobs_json st"
    by (elim exE conjE)
  from json_moveToDLQ_appends[of job st1] obtain st2 where
    b1: "json_moveToDLQ job st1 = Inr st2" and b2: "dlq_json st2 = dlq_json st1 @ [toJSON job]"
    by (elim exE conjE)
  have c3: "\<forall>db1. sqlite_moveToDLQ job now db = Inr db1
              \<longrightarrow> sqlite_moveToDLQ job now' db1 = Inl SqliteConstraintPrimaryKey"
  proof (intro allI impI)
    fix db1 assume "sqlite_moveToDLQ job now db = Inr db1"
    from sqlite_moveToDLQ_again[OF sqlite_moveToDLQ_Inr[OF this]]
    show "sqlite_moveToDLQ job now' db1 = Inl SqliteConstraintPrimaryKey" .
  qed
  have c4: "dlq_json st2 = dlq_json st @ [toJSON job, toJSON job]"
    using a2 b2 by simp
  show ?thesis
    apply (rule exI[of _ st1])
    apply (rule exI[of _ st2])
    apply (intro conjI)
         apply (rule a1)
        apply (rule a2)
       apply (rule a3)
      apply (rule b1)
     apply (rule c4)
    apply (rule c3)
    done
qed

text \<open>Claim C10 at the dead sample job and empty collections.\<close>
theorem moveToDLQ_witness:
  "findIndex (\<lambda>j. job_id j = job_id sample_dead) (jobs_json \<lparr> jobs_json = [], dlq_json = [] \<rparr>) = None
   \<and> (\<exists>st1 st2. json_moveToDLQ sample_dead \<lparr> jobs_json = [], dlq_json = [] \<rparr> = Inr st1
         \<and> jobs_json st1 = []
         \<and> json_moveToDLQ sample_dead st1 = Inr st2
         \<and> dlq_json st2 = [sample_dead, sample_dead])
   \<and> sqlite_moveToDLQ sample_dead 8000 \<lparr> jobs_table = [sample_released], dlq_table = [] \<rparr>
       = Inr \<lparr> jobs_table = [],
               dlq_table = [\<lparr> dlq_id = ''job-x'', payload = Some sample_dead, dead_at = 8000 \<rparr>] \<rparr>
   \<and> sqlite_moveToDLQ sample_dead 8500
        \<lparr> jobs_table = [],
          dlq_table = [\<lparr> dlq_id = ''job-x'', payload = Some sample_dead, dead_at = 8000 \<rparr>] \<rparr>
       = Inl SqliteConstraintPrimaryKey"
proof -
  let ?st = "\<lparr> jobs_json = [], dlq_json = [] \<rparr>"
  let ?db = "\<lparr> jobs_table = [sample_released], dlq_table = [] \<rparr>"
  let ?db1 = "\<lparr> jobs_table = [],
               dlq_table = [\<lparr> dlq_id = ''job-x'', payload = Some sample_dead, dead_at = 8000 \<rparr>] \<rparr>"
  have a: "findIndex (\<lambda>j. job_id j = job_id sample_dead) (jobs_json ?st) = None"
    by simp
  have b: "sqlite_moveToDLQ sample_dead 8000 ?db = Inr ?db1"
    by code_simp
  from moveToDLQ_json_duplicates_sqlite_rejects[of sample_dead ?st 8000 ?db 8500]
  obtain st1 st2 where
    s1: "json_moveToDLQ sample_dead ?st = Inr st1"
    and s2: "findIndex (\<lambda>j. job_id j = job_id sample_dead) (jobs_json ?st) = None
            \<longrightarrow> jobs_json st1 = jobs_json ?st"
    and s3: "json_moveToDLQ sample_dead st1 = Inr st2"
    and s4: "dlq_json st2 = dlq_json ?st @ [toJSON sample_dead, toJSON sample_dead]"
    and s5: "\<forall>db1. sqlite_moveToDLQ sample_dead 8000 ?db = Inr db1
              \<longrightarrow> sqlite_moveToDLQ sample_dead 8500 db1 = Inl SqliteConstraintPrimaryKey"
    by (elim exE conjE)
  from s2 a have t2: "jobs_json st1 = []" by simp
  from s4 have t4: "dlq_json st2 = [sample_dead, sample_dead]" by (simp add: toJSON_ident)
  from s5 b have t5: "sqlite_moveToDLQ sample_dead 8500 ?db1 = Inl SqliteConstraintPrimaryKey"
    by (elim allE impE) assumption
  have e: "\<exists>st1 st2. json_moveToDLQ sample_dead ?st = Inr st1
         \<and> jobs_json st1 = []
         \<and> json_moveToDLQ sample_dead st1 = Inr st2
         \<and> dlq_json st2 = [sample_dead, sample_dead]"
    apply (rule exI[of _ st1])
    apply (rule exI[of _ st2])
    apply (intro conjI)
       apply (rule s1)
      apply (rule t2)
     apply (rule s3)
    apply (rule t4)
    done
  show ?thesis
    apply (intro conjI)
       apply (rule a)
      apply (rule e)
     apply (rule b)
    apply (rule t5)
    done
qed

subsection \<open>Revival from the dead-letter queue\<close>

lemma findIndex_Some:
  "findIndex P xs = Some idx \<Longrightarrow> idx < length xs \<and> P (xs ! idx)"
proof (induction xs arbitrary: idx)
  case Nil
  then show ?case by simp
next
  case (Cons x xs)
  show ?case
  proof (cases "P x")
    case True
    with Cons.prems show ?thesis by simp
  next
    case False
    with Cons.prems obtain k where k: "findIndex P xs = Some k" "idx = Suc k"
      by (cases "findIndex P xs") auto
    from Cons.IH[OF k(1)] k(2) show ?thesis by simp
  qed
qed

lemma findIndex_None: "findIndex P xs = None \<longleftrightarrow> \<not> list_ex P xs"
  by (induction xs) auto

lemma json_retryFromDLQ_absent:
  assumes "\<not> list_ex (\<lambda>j. job_id j = i) (dlq_json st)"
  shows "json_retryFromDLQ i now st = Inr (None, st)"
  using assms by (simp add: json_retryFromDLQ_def findIndex_None[symmetric])

lemma sqlite_retryFromDLQ_absent:
  assumes "\<not> list_ex (\<lambda>d. dlq_id d = i) (dlq_table db)"
  shows "sqlite_retryFromDLQ i now db = Inr (None, db)"
proof -
  from assms have "find (\<lambda>d. dlq_id d = i) (dlq_table db) = None"
    by (simp add: find_None_iff list_ex_iff)
  then show ?thesis by (simp add: sqlite_retryFromDLQ_def)
qed

lemma resetForRetry_dead_or_failed:
  assumes "state p = Dead \<or> state p = Failed"
  shows "resetForRetry False now p =
           Inr (p \<lparr> attempts := 0, state := Pending, updated_at := now,
                     next_attempt_at := None, last_error := None \<rparr>)"
  using assms by (auto simp: resetForRetry_def)

lemma json_retryFromDLQ_present:
  assumes f: "findIndex (\<lambda>j. job_id j = i) (dlq_json st) = Some idx"
    and v: "valid_job (dlq_json st ! idx)"
    and s: "state (dlq_json st ! idx) = Dead \<or> state (dlq_json st ! idx) = Failed"
  shows "\<exists>job st'. json_retryFromDLQ i now st = Inr (Some job, st')
           \<and> job = (dlq_json st ! idx) \<lparr> attempts := 0, state := Pending, updated_at := now,
                                           next_attempt_at := None, last_error := None \<rparr>
           \<and> job_id job = i
           \<and> dlq_json st' = splice1 idx (dlq_json st)
           \<and> (case findIndex (\<lambda>j. job_id j = i) (jobs_json st) of
                 None \<Rightarrow> jobs_json st' = jobs_json st @ [job]
               | Some jdx \<Rightarrow> jobs_json st' = (jobs_json st)[jdx := job])"
proof -
  let ?p = "dlq_json st ! idx"
  let ?job = "?p \<lparr> attempts := 0, state := Pending, updated_at := now,
                    next_attempt_at := None, last_error := None \<rparr>"
  from findIndex_Some[OF f] have id: "job_id ?p = i" by simp
  have fj: "fromJSON ?p = Inr ?p" using fromJSON_of_valid[OF v] .
  have rr: "resetForRetry False now ?p = Inr ?job"
    using resetForRetry_dead_or_failed[OF s] .
  have jid: "job_id ?job = i" using id by simp
  show ?thesis
  proof (cases "findIndex (\<lambda>j. job_id j = i) (jobs_json st)")
    case None
    then have nex: "\<not> list_ex (\<lambda>j. job_id j = i) (jobs_json st)"
      by (simp add: findIndex_None)
    have "json_retryFromDLQ i now st =
            Inr (Some ?job, st \<lparr> jobs_json := jobs_json st @ [?job],
                                 dlq_json := splice1 idx (dlq_json st) \<rparr>)"
      unfolding json_retryFromDLQ_def f
      by (simp add: Let_def fj rr id nex toJSON_ident)
    then show ?thesis using None jid by simp
  next
    case (Some jdx)
    then have ex: "list_ex (\<lambda>j. job_id j = i) (jobs_json st)"
      using findIndex_None[of "\<lambda>j. job_id j = i" "jobs_json st"] by simp
    have "json_retryFromDLQ i now st =
            Inr (Some ?job, st \<lparr> jobs_json := (jobs_json st)[jdx := ?job],
                                 dlq_json := splice1 idx (dlq_json st) \<rparr>)"
      unfolding json_retryFromDLQ_def f
      by (simp add: Let_def fj rr id ex Some toJSON_ident)
    then show ?thesis using Some jid by simp
  qed
qed

lemma sqlite_retryFromDLQ_collision:
  assumes c: "list_ex (\<lambda>r. job_id r = i) (jobs_table db)"
    and f: "find (\<lambda>d. dlq_id d = i) (dlq_table db) = Some row"
    and p: "payload row = Some snapshot" and id: "job_id snapshot = i"
  shows "\<exists>e. sqlite_retryFromDLQ i now db = Inl e"
proof (cases "fromJSON snapshot")
  case (Inl e)
  then show ?thesis using f p by (simp add: sqlite_retryFromDLQ_def)
next
  case (Inr j0)
  from fromJSON_fields[OF Inr] id have j0: "job_id j0 = i" by simp
  show ?thesis
  proof (cases "resetForRetry False now j0")
    case (Inl e)
    then show ?thesis using f p Inr by (simp add: sqlite_retryFromDLQ_def)
  next
    case r: (Inr j)
    then have "job_id j = i" using j0
      by (auto simp: resetForRetry_def split: if_splits)
    then have "sqlite_enqueue j (db \<lparr> dlq_table := filter (\<lambda>d. dlq_id d \<noteq> i) (dlq_table db) \<rparr>)
                 = Inl SqliteConstraintPrimaryKey"
      using c by (simp add: sqlite_enqueue_def toJSON_ident)
    then show ?thesis using f p Inr r by (simp add: sqlite_retryFromDLQ_def)
  qed
qed

end
